theory Spec2Isabelle
  imports Main "HOL-Library.Char_ord" "HOL-Library.List_Lexorder" "HOL-Library.Sublist"
    "HOL-Library.Multiset"
begin

section \<open>The log-processing pipeline of ona-bot/structure.py\<close>

text \<open>
  The pipeline of \<^verbatim>\<open>structure.py\<close> reads a checkpoint from \<^verbatim>\<open>state.json\<close>, fetches raw
  log entries from a spreadsheet web application, has a language model turn each new
  entry into JSON, appends audit rows (and, after the loop, one workout header with its
  activity rows) to the spreadsheet, and writes the checkpoint back.

  Python strings are modelled as \<^typ>\<open>string\<close>; their comparison is the lexicographic
  order of \<^theory_text>\<open>List_Lexorder\<close> over the character codes of \<^theory_text>\<open>Char_ord\<close>, which is
  Python's order on the (ASCII) timestamps the bot produces.
\<close>

subsection \<open>JSON values and Python exceptions\<close>

text \<open>
  What \<^verbatim>\<open>json.loads\<close> returns. A JSON object is an association list that is read
  with \<^const>\<open>map_of\<close>. Numbers are integers here: no claim depends on a fractional number.
\<close>

datatype json =
    JNull
  | JBool bool
  | JNum int
  | JStr string
  | JArr "json list"
  | JObj "(string \<times> json) list"

text \<open>
  The subclasses of \<^verbatim>\<open>Exception\<close> that the code can raise, each with the text that
  \<^verbatim>\<open>str(e)\<close> gives. \<open>RequestError\<close> stands for what \<^verbatim>\<open>requests\<close> and
  \<^verbatim>\<open>raise_for_status\<close> raise, \<open>BackendError\<close> for what the OpenAI client raises.
\<close>

datatype exn =
    JSONDecodeError string
  | RequestError string
  | RuntimeError string
  | BackendError string
  | AttributeError string
  | KeyError string
  | TypeError string
  | UnboundLocalError string

fun str_exn :: "exn \<Rightarrow> string" where
  "str_exn (JSONDecodeError m) = m"
| "str_exn (RequestError m) = m"
| "str_exn (RuntimeError m) = m"
| "str_exn (BackendError m) = m"
| "str_exn (AttributeError m) = m"
| "str_exn (KeyError m) = m"
| "str_exn (TypeError m) = m"
| "str_exn (UnboundLocalError m) = m"

text \<open>The name Python prints for the type of a JSON value, used in its error messages.\<close>

fun type_name :: "json \<Rightarrow> string" where
  "type_name JNull = ''NoneType''"
| "type_name (JBool b) = ''bool''"
| "type_name (JNum n) = ''int''"
| "type_name (JStr s) = ''str''"
| "type_name (JArr xs) = ''list''"
| "type_name (JObj kvs) = ''dict''"

definition no_attribute :: "json \<Rightarrow> string \<Rightarrow> exn" where
  "no_attribute v a =
     AttributeError ([CHR 0x27] @ type_name v @ [CHR 0x27] @ '' object has no attribute ''
                     @ [CHR 0x27] @ a @ [CHR 0x27])"

text \<open>\<^verbatim>\<open>d.get(k)\<close> on a dictionary: \<^verbatim>\<open>None\<close> (JSON null) when the key is absent.\<close>

definition dict_get :: "(string \<times> json) list \<Rightarrow> string \<Rightarrow> json" where
  "dict_get d k = (case map_of d k of None \<Rightarrow> JNull | Some v \<Rightarrow> v)"

text \<open>\<^verbatim>\<open>obj.get(k, dflt)\<close> on a value that \<^verbatim>\<open>json.loads\<close> returned: only a dictionary has
  the method.\<close>

fun json_get :: "json \<Rightarrow> string \<Rightarrow> json \<Rightarrow> exn + json" where
  "json_get (JObj d) k dflt = Inr (case map_of d k of None \<Rightarrow> dflt | Some v \<Rightarrow> v)"
| "json_get v k dflt = Inl (no_attribute v ''get'')"

text \<open>\<^verbatim>\<open>obj[k]\<close> with a string key: \<^verbatim>\<open>KeyError\<close> on a dictionary without the key,
  \<^verbatim>\<open>TypeError\<close> on every other value.\<close>

fun json_subscript :: "json \<Rightarrow> string \<Rightarrow> exn + json" where
  "json_subscript (JObj d) k =
     (case map_of d k of None \<Rightarrow> Inl (KeyError k) | Some v \<Rightarrow> Inr v)"
| "json_subscript v k = Inl (TypeError (type_name v))"

subsection \<open>Rows, the world and its environment\<close>

text \<open>
  A raw log entry is the dictionary the sheet returns for it; the driver reads it only
  through \<^verbatim>\<open>r.get(key, "")\<close>, and its values are the strings that \<^verbatim>\<open>bot.py\<close> posted.
\<close>

type_synonym raw_entry = "(string \<times> string) list"

definition get_str :: "(string \<times> string) list \<Rightarrow> string \<Rightarrow> string \<Rightarrow> string" where
  "get_str d k dflt = (case map_of d k of None \<Rightarrow> dflt | Some v \<Rightarrow> v)"

record audit_row =
  a_timestamp :: string
  a_user_id :: string
  a_raw_text :: string
  a_parsed_json :: string
  a_status :: json

record workout_row =
  w_workout_id :: string
  w_date :: json
  w_type :: json
  w_duration_min :: json
  w_location :: json
  w_session_notes :: json

record activity_row =
  r_workout_id :: string
  r_date :: json
  r_exercise :: json
  r_exercise_id :: json
  r_weight :: json
  r_reps :: json
  r_rest_sec :: json
  r_hold_sec :: json
  r_notes :: json
  r_set_number :: json

datatype request =
    AppendParsed audit_row
  | AppendWorkout workout_row
  | AppendActivities "activity_row list"

text \<open>What \<^verbatim>\<open>main\<close> prints.\<close>

datatype printed =
    LoadingState
  | LastTs string
  | ProcessingRow raw_entry
  | Done string
  | NothingNew

text \<open>
  The world the run acts on: the checkpoint file (\<open>None\<close> when \<^verbatim>\<open>state.json\<close> does not
  exist), how often it has been written, the three sheets of the store, the standard
  output, and the number of calls made so far to the store and to the language model.
\<close>

record world =
  state_file :: "(string \<times> string) list option"
  state_writes :: nat
  parsed_logs :: "audit_row list"
  workouts :: "workout_row list"
  activities :: "activity_row list"
  stdout :: "printed list"
  calls :: nat

text \<open>
  What the run does not decide: the replies of the store and of the language model, and the
  two functions of Python's \<^verbatim>\<open>json\<close> module. Each reply may depend on the number of calls
  made before it, so the same request can succeed once and fail later.
  \<^item> \<open>fetch_reply n limit\<close>: what \<^verbatim>\<open>fetch_recent_raw\<close> returns or raises;
  \<^item> \<open>count_reply n rows date\<close>: what \<^verbatim>\<open>get_workouts_count_for_date\<close> returns or raises
    when the workouts sheet holds \<open>rows\<close>;
  \<^item> \<open>post_reply n req\<close>: \<open>None\<close> when the POST succeeds (the row is appended), the exception
    otherwise (nothing is appended: a call completes or fails as a whole);
  \<^item> \<open>llm_reply n input\<close>: the \<^verbatim>\<open>output_text\<close> of the response to \<open>input\<close>, or the
    exception of the client;
  \<^item> \<open>today n\<close>: what \<^verbatim>\<open>iso_now_date_utc\<close> returns;
  \<^item> \<open>json_loads\<close> (\<open>Inl\<close> the message of the \<^verbatim>\<open>JSONDecodeError\<close>) and \<open>json_dumps\<close>.
\<close>

record env =
  fetch_reply :: "nat \<Rightarrow> nat \<Rightarrow> exn + raw_entry list"
  count_reply :: "nat \<Rightarrow> workout_row list \<Rightarrow> string \<Rightarrow> exn + int"
  post_reply :: "nat \<Rightarrow> request \<Rightarrow> exn option"
  llm_reply :: "nat \<Rightarrow> string \<Rightarrow> exn + string"
  today :: "nat \<Rightarrow> string"
  json_loads :: "string \<Rightarrow> string + json"
  json_dumps :: "json \<Rightarrow> string"

subsection \<open>The checkpoint store\<close>

definition load_state :: "world \<Rightarrow> (string \<times> string) list" where
  "load_state w =
     (case state_file w of None \<Rightarrow> [(''last_timestamp'', '''')] | Some d \<Rightarrow> d)"

definition save_state :: "(string \<times> string) list \<Rightarrow> world \<Rightarrow> world" where
  "save_state st w = w\<lparr>state_file := Some st, state_writes := Suc (state_writes w)\<rparr>"

subsection \<open>Calls to the store\<close>

text \<open>The two diagnostic prints of the HTTP response in \<^verbatim>\<open>fetch_recent_raw\<close> are left
  out of \<^const>\<open>stdout\<close>.\<close>

definition fetch_recent_raw :: "env \<Rightarrow> nat \<Rightarrow> world \<Rightarrow> (exn + raw_entry list) \<times> world" where
  "fetch_recent_raw E limit w = (fetch_reply E (calls w) limit, w\<lparr>calls := Suc (calls w)\<rparr>)"

fun store_append :: "request \<Rightarrow> world \<Rightarrow> world" where
  "store_append (AppendParsed row) w = w\<lparr>parsed_logs := parsed_logs w @ [row]\<rparr>"
| "store_append (AppendWorkout row) w = w\<lparr>workouts := workouts w @ [row]\<rparr>"
| "store_append (AppendActivities rows) w = w\<lparr>activities := activities w @ rows\<rparr>"

text \<open>\<^verbatim>\<open>requests.post(...)\<close> followed by \<^verbatim>\<open>r.raise_for_status()\<close>.\<close>

definition post :: "env \<Rightarrow> request \<Rightarrow> world \<Rightarrow> (exn + unit) \<times> world" where
  "post E req w =
     (let w' = w\<lparr>calls := Suc (calls w)\<rparr>
      in case post_reply E (calls w) req of
           Some e \<Rightarrow> (Inl e, w')
         | None \<Rightarrow> (Inr (), store_append req w'))"

definition append_parsed ::
  "env \<Rightarrow> string \<Rightarrow> string \<Rightarrow> string \<Rightarrow> string \<Rightarrow> json \<Rightarrow> world \<Rightarrow> (exn + unit) \<times> world" where
  "append_parsed E timestamp user_id raw_text parsed_json status w =
     post E (AppendParsed \<lparr>a_timestamp = timestamp, a_user_id = user_id, a_raw_text = raw_text,
                           a_parsed_json = parsed_json, a_status = status\<rparr>) w"

definition get_workouts_count_for_date :: "env \<Rightarrow> string \<Rightarrow> world \<Rightarrow> (exn + int) \<times> world" where
  "get_workouts_count_for_date E date_iso w =
     (count_reply E (calls w) (workouts w) date_iso, w\<lparr>calls := Suc (calls w)\<rparr>)"

fun append_workout_row :: "env \<Rightarrow> string \<Rightarrow> json \<Rightarrow> world \<Rightarrow> (exn + unit) \<times> world" where
  "append_workout_row E workout_id (JObj d) w =
     post E (AppendWorkout \<lparr>w_workout_id = workout_id, w_date = dict_get d ''date'',
                            w_type = dict_get d ''type'',
                            w_duration_min = dict_get d ''duration_min'',
                            w_location = dict_get d ''location'',
                            w_session_notes = dict_get d ''session_notes''\<rparr>) w"
| "append_workout_row E workout_id v w = (Inl (no_attribute v ''get''), w)"

text \<open>What \<^verbatim>\<open>for a in activities\<close> runs over.\<close>

fun iterate :: "json \<Rightarrow> exn + json list" where
  "iterate (JArr xs) = Inr xs"
| "iterate (JObj d) = Inr (map (\<lambda>kv. JStr (fst kv)) d)"
| "iterate (JStr s) = Inr (map (\<lambda>c. JStr [c]) s)"
| "iterate v = Inl (TypeError ([CHR 0x27] @ type_name v @ [CHR 0x27] @ '' object is not iterable''))"

fun activity_row_of :: "string \<Rightarrow> json \<Rightarrow> json \<Rightarrow> exn + activity_row" where
  "activity_row_of workout_id date_iso (JObj a) =
     Inr \<lparr>r_workout_id = workout_id, r_date = date_iso, r_exercise = dict_get a ''exercise'',
          r_exercise_id = JNull, r_weight = dict_get a ''weight'', r_reps = dict_get a ''reps'',
          r_rest_sec = dict_get a ''rest_sec'', r_hold_sec = dict_get a ''hold_sec'',
          r_notes = dict_get a ''notes'', r_set_number = dict_get a ''set_number''\<rparr>"
| "activity_row_of workout_id date_iso v = Inl (no_attribute v ''get'')"

fun activity_rows :: "string \<Rightarrow> json \<Rightarrow> json list \<Rightarrow> exn + activity_row list" where
  "activity_rows workout_id date_iso [] = Inr []"
| "activity_rows workout_id date_iso (a # as) =
     (case activity_row_of workout_id date_iso a of
        Inl e \<Rightarrow> Inl e
      | Inr row \<Rightarrow>
          (case activity_rows workout_id date_iso as of
             Inl e \<Rightarrow> Inl e
           | Inr rows \<Rightarrow> Inr (row # rows)))"

definition append_activity_rows ::
  "env \<Rightarrow> string \<Rightarrow> json \<Rightarrow> json \<Rightarrow> world \<Rightarrow> (exn + unit) \<times> world" where
  "append_activity_rows E workout_id date_iso acts w =
     (case iterate acts of
        Inl e \<Rightarrow> (Inl e, w)
      | Inr as \<Rightarrow>
          (case activity_rows workout_id date_iso as of
             Inl e \<Rightarrow> (Inl e, w)
           | Inr rows \<Rightarrow> post E (AppendActivities rows) w))"

subsection \<open>The parser\<close>

text \<open>The characters that \<^verbatim>\<open>str.strip()\<close> removes, among the first 256 code points
  (a \<^typ>\<open>char\<close> has eight bits).\<close>

definition is_space :: "char \<Rightarrow> bool" where
  "is_space c =
     (let n = (of_char c :: nat)
      in (9 \<le> n \<and> n \<le> 13) \<or> (28 \<le> n \<and> n \<le> 32) \<or> n = 133 \<or> n = 160)"

definition strip :: "string \<Rightarrow> string" where
  "strip s = rev (dropWhile is_space (rev (dropWhile is_space s)))"

definition llm_input :: "string \<Rightarrow> string \<Rightarrow> string" where
  "llm_input raw_text default_date_iso =
     ''Default date (if not specified): '' @ default_date_iso @ [CHR 0x0A, CHR 0x0A]
       @ ''Raw log:'' @ [CHR 0x0A] @ raw_text"

definition parse_with_llm ::
  "env \<Rightarrow> string \<Rightarrow> string \<Rightarrow> world \<Rightarrow> (exn + string \<times> json) \<times> world" where
  "parse_with_llm E raw_text default_date_iso w =
     (let w' = w\<lparr>calls := Suc (calls w)\<rparr>
      in case llm_reply E (calls w) (llm_input raw_text default_date_iso) of
           Inl e \<Rightarrow> (Inl e, w')
         | Inr output_text \<Rightarrow>
             (case json_loads E (strip output_text) of
                Inl m \<Rightarrow> (Inl (JSONDecodeError m), w')
              | Inr obj \<Rightarrow>
                  (case json_get obj ''status'' (JStr ''needs_review'') of
                     Inl e \<Rightarrow> (Inl e, w')
                   | Inr status \<Rightarrow> (Inr (json_dumps E obj, status), w'))))"

definition iso_now_date_utc :: "env \<Rightarrow> world \<Rightarrow> string" where
  "iso_now_date_utc E w = today E (calls w)"

subsection \<open>The workout id\<close>

definition digit_char :: "nat \<Rightarrow> char" where
  "digit_char d = char_of (48 + d)"

fun dec_nat :: "nat \<Rightarrow> string" where
  "dec_nat n = (if n < 10 then [digit_char n] else dec_nat (n div 10) @ [digit_char (n mod 10)])"

declare dec_nat.simps [simp del]

text \<open>Python's format specification \<^verbatim>\<open>03d\<close>: the sign, then zeros up to a total width
  of three, then the decimal digits.\<close>

definition fmt_03d :: "int \<Rightarrow> string" where
  "fmt_03d n =
     (if n < 0
      then (let ds = dec_nat (nat (- n)) in ''-'' @ replicate (2 - length ds) CHR ''0'' @ ds)
      else (let ds = dec_nat (nat n) in replicate (3 - length ds) CHR ''0'' @ ds))"

text \<open>\<^verbatim>\<open>date_iso.replace("-", "")\<close>.\<close>

definition remove_dashes :: "string \<Rightarrow> string" where
  "remove_dashes s = filter (\<lambda>c. c \<noteq> CHR ''-'') s"

fun make_workout_id :: "env \<Rightarrow> json \<Rightarrow> world \<Rightarrow> (exn + string) \<times> world" where
  "make_workout_id E (JStr date_iso) w =
     (let yyyymmdd = remove_dashes date_iso
      in case get_workouts_count_for_date E date_iso w of
           (Inl e, w') \<Rightarrow> (Inl e, w')
         | (Inr cnt, w') \<Rightarrow>
             (let serial = cnt + 1 in (Inr (yyyymmdd @ ''-'' @ fmt_03d serial), w')))"
| "make_workout_id E v w = (Inl (no_attribute v ''replace''), w)"

subsection \<open>The driver\<close>

text \<open>
  The local variables of \<^verbatim>\<open>main\<close> that live across iterations of its loop.
  \<open>parsed_json\<close> is \<open>None\<close> as long as no assignment has bound it. (The loop also binds
  \<^verbatim>\<open>status\<close>, which is assigned again before it is next read.)
\<close>

record locals =
  last_ts :: string
  processed_any :: bool
  parsed_json :: "string option"

definition print :: "printed \<Rightarrow> world \<Rightarrow> world" where
  "print p w = w\<lparr>stdout := stdout w @ [p]\<rparr>"

text \<open>The body of the \<^verbatim>\<open>try\<close>: the tuple assignment binds \<^verbatim>\<open>parsed_json\<close> only when
  \<^verbatim>\<open>parse_with_llm\<close> returns.\<close>

definition try_block ::
  "env \<Rightarrow> string \<Rightarrow> string \<Rightarrow> string \<Rightarrow> locals \<Rightarrow> world \<Rightarrow> (exn + unit) \<times> locals \<times> world" where
  "try_block E ts user_id raw_text l w =
     (case parse_with_llm E raw_text (iso_now_date_utc E w) w of
        (Inl e, w1) \<Rightarrow> (Inl e, l, w1)
      | (Inr (pj, status), w1) \<Rightarrow>
          (case append_parsed E ts user_id raw_text pj status w1 of
             (r, w2) \<Rightarrow> (r, l\<lparr>parsed_json := Some pj\<rparr>, w2)))"

text \<open>The body of the \<^verbatim>\<open>except Exception as e\<close>.\<close>

definition except_block ::
  "env \<Rightarrow> string \<Rightarrow> string \<Rightarrow> string \<Rightarrow> exn \<Rightarrow> world \<Rightarrow> (exn + unit) \<times> world" where
  "except_block E ts user_id raw_text e w =
     (let err_payload = json_dumps E (JObj [(''error'', JStr (str_exn e))])
      in append_parsed E ts user_id raw_text err_payload (JStr ''error'') w)"

text \<open>One iteration of the loop. An exception of the \<^verbatim>\<open>except\<close> body is not caught.\<close>

definition timestamp_of :: "raw_entry \<Rightarrow> string" where
  "timestamp_of r = get_str r ''timestamp'' ''''"

definition process_row :: "env \<Rightarrow> raw_entry \<Rightarrow> locals \<Rightarrow> world \<Rightarrow> (exn + locals) \<times> world" where
  "process_row E r l w0 =
     (let w = print (ProcessingRow r) w0;
          ts = timestamp_of r
      in if ts = '''' then (Inr l, w)
         else if last_ts l \<noteq> '''' \<and> ts \<le> last_ts l then (Inr l, w)
         else
           (let user_id = get_str r ''user_id'' '''';
                raw_text = get_str r ''raw_text'' ''''
            in case try_block E ts user_id raw_text l w of
                 (Inr u, l1, w1) \<Rightarrow> (Inr (l1\<lparr>last_ts := ts, processed_any := True\<rparr>), w1)
               | (Inl e, l1, w1) \<Rightarrow>
                   (case except_block E ts user_id raw_text e w1 of
                      (Inl e', w2) \<Rightarrow> (Inl e', w2)
                    | (Inr u, w2) \<Rightarrow> (Inr (l1\<lparr>last_ts := ts, processed_any := True\<rparr>), w2))))"

fun loop :: "env \<Rightarrow> raw_entry list \<Rightarrow> locals \<Rightarrow> world \<Rightarrow> (exn + locals) \<times> world" where
  "loop E [] l w = (Inr l, w)"
| "loop E (r # rs) l w =
     (case process_row E r l w of
        (Inl e, w') \<Rightarrow> (Inl e, w')
      | (Inr l', w') \<Rightarrow> loop E rs l' w')"

text \<open>Lines 206 to 215 of \<^verbatim>\<open>main\<close>, after the loop and the checkpoint write.\<close>

definition post_loop :: "env \<Rightarrow> locals \<Rightarrow> world \<Rightarrow> (exn + unit) \<times> world" where
  "post_loop E l w =
     (case parsed_json l of
        None \<Rightarrow>
          (Inl (UnboundLocalError
             (''cannot access local variable '' @ [CHR 0x27] @ ''parsed_json'' @ [CHR 0x27]
               @ '' where it is not associated with a value'')), w)
      | Some pj \<Rightarrow>
          (case json_loads E pj of
             Inl m \<Rightarrow> (Inl (JSONDecodeError m), w)
           | Inr obj \<Rightarrow>
               (case json_get obj ''status'' (JStr ''needs_review'') of
                  Inl e \<Rightarrow> (Inl e, w)
                | Inr status \<Rightarrow>
                    if status = JStr ''ok'' then
                      (case json_subscript obj ''workout'' of
                         Inl e \<Rightarrow> (Inl e, w)
                       | Inr wk \<Rightarrow>
                           (case json_subscript wk ''date'' of
                              Inl e \<Rightarrow> (Inl e, w)
                            | Inr date_iso \<Rightarrow>
                                (case make_workout_id E date_iso w of
                                   (Inl e, w1) \<Rightarrow> (Inl e, w1)
                                 | (Inr workout_id, w1) \<Rightarrow>
                                     (case append_workout_row E workout_id wk w1 of
                                        (Inl e, w2) \<Rightarrow> (Inl e, w2)
                                      | (Inr u, w2) \<Rightarrow>
                                          (case json_get obj ''activities'' (JArr []) of
                                             Inl e \<Rightarrow> (Inl e, w2)
                                           | Inr acts \<Rightarrow>
                                               append_activity_rows E workout_id date_iso acts w2)))))
                    else (Inr (), w))))"

text \<open>
  \<^verbatim>\<open>main\<close>, in two parts. \<open>main_loop\<close> is lines 167 to 198: it loads the checkpoint,
  fetches, sorts (Python's \<^verbatim>\<open>sorted\<close> is stable, and so is \<^const>\<open>sort_key\<close>) and runs
  the loop. \<open>main\<close> adds lines 200 to 215. The result is \<open>Inl e\<close> when the run ends with the
  uncaught exception \<open>e\<close>; the world is then the one the exception left behind.
\<close>

definition loaded_last_ts :: "world \<Rightarrow> string" where
  "loaded_last_ts w0 = get_str (load_state w0) ''last_timestamp'' ''''"

definition main_loop :: "env \<Rightarrow> world \<Rightarrow> (exn + locals) \<times> world" where
  "main_loop E w0 =
     (let w1 = print LoadingState w0;
          last_ts0 = loaded_last_ts w0;
          w2 = print (LastTs last_ts0) w1
      in case fetch_recent_raw E 100 w2 of
           (Inl e, w3) \<Rightarrow> (Inl e, w3)
         | (Inr rows, w3) \<Rightarrow>
             (let rows_sorted = sort_key timestamp_of rows
              in loop E rows_sorted
                   \<lparr>last_ts = last_ts0, processed_any = False, parsed_json = None\<rparr> w3))"

definition main :: "env \<Rightarrow> world \<Rightarrow> (exn + unit) \<times> world" where
  "main E w0 =
     (case main_loop E w0 of
        (Inl e, w4) \<Rightarrow> (Inl e, w4)
      | (Inr l, w4) \<Rightarrow>
          (let w5 = (if processed_any l
                     then print (Done (last_ts l))
                            (save_state [(''last_timestamp'', last_ts l)] w4)
                     else print NothingNew w4)
           in post_loop E l w5))"

subsection \<open>Concrete runs\<close>

text \<open>
  A serializer in the format of \<^verbatim>\<open>json.dumps\<close> (a comma and a space between items, a colon and a space after a key) for
  values whose strings need no escaping. The concrete runs below use it to write down the
  texts that the language model returns, and as their \<^const>\<open>json_dumps\<close>.
\<close>

definition quote :: "string \<Rightarrow> string" where
  "quote s = [CHR 0x22] @ s @ [CHR 0x22]"

fun join :: "string \<Rightarrow> string list \<Rightarrow> string" where
  "join sep [] = []"
| "join sep [x] = x"
| "join sep (x # y # ys) = x @ sep @ join sep (y # ys)"

fun dumps_plain :: "json \<Rightarrow> string" where
  "dumps_plain JNull = ''null''"
| "dumps_plain (JBool b) = (if b then ''true'' else ''false'')"
| "dumps_plain (JNum n) = (if n < 0 then ''-'' @ dec_nat (nat (- n)) else dec_nat (nat n))"
| "dumps_plain (JStr s) = quote s"
| "dumps_plain (JArr xs) = ''['' @ join '', '' (map dumps_plain xs) @ '']''"
| "dumps_plain (JObj kvs) =
     ''{'' @ join '', '' (map (\<lambda>kv. quote (fst kv) @ '': '' @ dumps_plain (snd kv)) kvs) @ ''}''"

definition world0 :: world where
  "world0 = \<lparr>state_file = None, state_writes = 0, parsed_logs = [], workouts = [],
             activities = [], stdout = [], calls = 0\<rparr>"

text \<open>A store that keeps an accurate count: as many workouts as the sheet has rows of the
  date.\<close>

definition accurate_count :: "workout_row list \<Rightarrow> string \<Rightarrow> exn + int" where
  "accurate_count rows date_iso = Inr (int (length (filter (\<lambda>row. w_date row = JStr date_iso) rows)))"

definition bench_obj :: json where
  "bench_obj =
     JObj [(''workout'', JObj [(''date'', JStr ''2024-05-01''), (''type'', JStr ''strength'')]),
           (''activities'', JArr [JObj [(''exercise'', JStr ''bench''), (''weight'', JNum 60),
                                        (''reps'', JNum 8)]]),
           (''status'', JStr ''ok''), (''questions'', JArr [])]"

definition squat_obj :: json where
  "squat_obj =
     JObj [(''workout'', JObj [(''date'', JStr ''2024-05-02''), (''type'', JStr ''strength'')]),
           (''activities'', JArr [JObj [(''exercise'', JStr ''squat''), (''weight'', JNum 100),
                                        (''reps'', JNum 5)]]),
           (''status'', JStr ''ok''), (''questions'', JArr [])]"

definition bench_entry :: raw_entry where
  "bench_entry = [(''timestamp'', ''2024-05-01T18:00:00+00:00''), (''user_id'', ''7''),
                  (''raw_text'', ''bench 60kg 8 reps'')]"

definition squat_entry :: raw_entry where
  "squat_entry = [(''timestamp'', ''2024-05-02T18:00:00+00:00''), (''user_id'', ''7''),
                  (''raw_text'', ''squat 100kg 5 reps'')]"

text \<open>
  An environment in which nothing fails: the sheet returns \<open>rows\<close>, every POST succeeds, the
  count is accurate, and the model answers the two entries above with the texts of
  \<^const>\<open>bench_obj\<close> and \<^const>\<open>squat_obj\<close> and everything else with a text that is not JSON.
\<close>

definition plain_loads :: "string \<Rightarrow> string + json" where
  "plain_loads t =
     (if t = dumps_plain bench_obj then Inr bench_obj
      else if t = dumps_plain squat_obj then Inr squat_obj
      else if t = ''[]'' then Inr (JArr [])
      else Inl ''Expecting value: line 1 column 1 (char 0)'')"

definition plain_llm :: "nat \<Rightarrow> string \<Rightarrow> exn + string" where
  "plain_llm n input =
     (if input = llm_input ''bench 60kg 8 reps'' ''2024-05-03'' then Inr (dumps_plain bench_obj)
      else if input = llm_input ''squat 100kg 5 reps'' ''2024-05-03'' then Inr (dumps_plain squat_obj)
      else Inr ''Sorry, I cannot parse this.'')"

definition healthy_env :: "raw_entry list \<Rightarrow> env" where
  "healthy_env rows =
     \<lparr>fetch_reply = (\<lambda>n limit. Inr rows),
      count_reply = (\<lambda>n. accurate_count),
      post_reply = (\<lambda>n req. None),
      llm_reply = plain_llm,
      today = (\<lambda>n. ''2024-05-03''),
      json_loads = plain_loads,
      json_dumps = dumps_plain\<rparr>"

subsection \<open>What a run is observed to do\<close>

text \<open>
  An entry is handled when an audit row is appended for it. The audit rows of a run are
  those that the sheet holds after it beyond the ones it held before; a row belongs to the
  entry whose timestamp, user and text it carries.
\<close>

definition audit_rows_written :: "world \<Rightarrow> world \<Rightarrow> audit_row list" where
  "audit_rows_written w0 w' = drop (length (parsed_logs w0)) (parsed_logs w')"

definition handled_timestamps :: "env \<Rightarrow> world \<Rightarrow> string list" where
  "handled_timestamps E w0 = map a_timestamp (audit_rows_written w0 (snd (main E w0)))"

definition row_key :: "audit_row \<Rightarrow> string \<times> string \<times> string" where
  "row_key a = (a_timestamp a, a_user_id a, a_raw_text a)"

definition entry_key :: "raw_entry \<Rightarrow> string \<times> string \<times> string" where
  "entry_key r = (timestamp_of r, get_str r ''user_id'' '''', get_str r ''raw_text'' '''')"

text \<open>
  Eligibility as the specification words it, for a list of entries taken in order: an entry
  passes when its timestamp strictly exceeds the checkpoint, which then moves to that
  timestamp.
\<close>

fun passing :: "string \<Rightarrow> raw_entry list \<Rightarrow> raw_entry list" where
  "passing c [] = []"
| "passing c (r # rs) =
     (if c < timestamp_of r then r # passing (timestamp_of r) rs else passing c rs)"

text \<open>The entries of a list whose timestamp is not in \<open>seen\<close> and has not occurred earlier
  in the list.\<close>

fun first_per_timestamp :: "string list \<Rightarrow> raw_entry list \<Rightarrow> raw_entry list" where
  "first_per_timestamp seen [] = []"
| "first_per_timestamp seen (r # rs) =
     (if timestamp_of r \<in> set seen then first_per_timestamp seen rs
      else r # first_per_timestamp (timestamp_of r # seen) rs)"

text \<open>The eligible entries of a batch in the order of the driver.\<close>

definition eligible_sorted :: "string \<Rightarrow> raw_entry list \<Rightarrow> raw_entry list" where
  "eligible_sorted c rows = filter (\<lambda>r. c < timestamp_of r) (sort_key timestamp_of rows)"

text \<open>The number that a string of decimal digits denotes.\<close>

definition digits_value :: "string \<Rightarrow> nat" where
  "digits_value s = foldl (\<lambda>a c. 10 * a + (of_char c - 48)) 0 s"

definition is_digit :: "char \<Rightarrow> bool" where
  "is_digit c = (48 \<le> (of_char c :: nat) \<and> (of_char c :: nat) \<le> 57)"

text \<open>
  The scenario of the specification for the allocator: \<open>n\<close> times in a row, an id is
  allocated for the date of the workout \<open>wk\<close> and the workout is recorded under it.
\<close>

fun allocate_sequentially :: "env \<Rightarrow> json \<Rightarrow> json \<Rightarrow> nat \<Rightarrow> world \<Rightarrow> (exn + string list) \<times> world" where
  "allocate_sequentially E date_iso wk 0 w = (Inr [], w)"
| "allocate_sequentially E date_iso wk (Suc n) w =
     (case make_workout_id E date_iso w of
        (Inl e, w1) \<Rightarrow> (Inl e, w1)
      | (Inr workout_id, w1) \<Rightarrow>
          (case append_workout_row E workout_id wk w1 of
             (Inl e, w2) \<Rightarrow> (Inl e, w2)
           | (Inr u, w2) \<Rightarrow>
               (case allocate_sequentially E date_iso wk n w2 of
                  (Inl e, w3) \<Rightarrow> (Inl e, w3)
                | (Inr ids, w3) \<Rightarrow> (Inr (workout_id # ids), w3))))"

text \<open>An entry with the timestamp of \<^const>\<open>bench_entry\<close> from another user, and one whose
  text the model does not answer with JSON.\<close>

definition twin_entry :: raw_entry where
  "twin_entry = [(''timestamp'', ''2024-05-01T18:00:00+00:00''), (''user_id'', ''8''),
                 (''raw_text'', ''squat 100kg 5 reps'')]"

definition vague_entry :: raw_entry where
  "vague_entry = [(''timestamp'', ''2024-05-03T09:30:00+00:00''), (''user_id'', ''7''),
                  (''raw_text'', ''did something today'')]"

text \<open>The store answers every POST with an error status.\<close>

definition down_env :: "raw_entry list \<Rightarrow> env" where
  "down_env rows =
     (healthy_env rows)\<lparr>post_reply := (\<lambda>n req. Some (RequestError ''503 Server Error''))\<rparr>"

text \<open>The model answers with the text of an empty JSON array and a line end.\<close>

definition array_env :: env where
  "array_env = (healthy_env [])\<lparr>llm_reply := (\<lambda>n input. Inr (''[]'' @ [CHR 0x0A]))\<rparr>"

text \<open>The store rejects the audit rows of user 8 and accepts every other POST.\<close>

definition picky_env :: "raw_entry list \<Rightarrow> env" where
  "picky_env rows =
     (healthy_env rows)\<lparr>post_reply :=
        (\<lambda>n req. case req of
                    AppendParsed a \<Rightarrow>
                      if a_user_id a = ''8'' then Some (RequestError ''400 Bad Request'') else None
                  | AppendWorkout row \<Rightarrow> None
                  | AppendActivities rows \<Rightarrow> None)\<rparr>"

text \<open>The store goes down after the third call of the run: the POSTs made later fail.\<close>

definition flaky_env :: "raw_entry list \<Rightarrow> env" where
  "flaky_env rows =
     (healthy_env rows)\<lparr>post_reply :=
        (\<lambda>n req. if n < 3 then None else Some (RequestError ''503 Server Error''))\<rparr>"

text \<open>The audit row that the \<^verbatim>\<open>except\<close> body posts for the entry \<open>r\<close> and the exception \<open>e\<close>.\<close>

definition error_row :: "env \<Rightarrow> raw_entry \<Rightarrow> exn \<Rightarrow> audit_row" where
  "error_row E r e =
     \<lparr>a_timestamp = timestamp_of r, a_user_id = get_str r ''user_id'' '''',
      a_raw_text = get_str r ''raw_text'' '''',
      a_parsed_json = json_dumps E (JObj [(''error'', JStr (str_exn e))]),
      a_status = JStr ''error''\<rparr>"

text \<open>The number of workouts that the sheet holds for a date.\<close>

definition recorded_for :: "string \<Rightarrow> world \<Rightarrow> nat" where
  "recorded_for date_iso w = length (filter (\<lambda>row. w_date row = JStr date_iso) (workouts w))"

section \<open>Properties\<close>

subsection \<open>One iteration of the loop\<close>

lemma eligible_iff: "(ts \<noteq> '''' \<and> \<not> (c \<noteq> '''' \<and> ts \<le> c)) \<longleftrightarrow> c < (ts :: string)"
proof (cases "c = ''''")
  case True
  then show ?thesis by (cases ts) auto
next
  case False
  then show ?thesis by (cases ts) (auto simp: not_le)
qed

lemma post_world:
  "post E req w = (res, w') \<Longrightarrow>
     w' = (case res of Inl e \<Rightarrow> w\<lparr>calls := Suc (calls w)\<rparr>
                     | Inr u \<Rightarrow> store_append req (w\<lparr>calls := Suc (calls w)\<rparr>))"
  by (auto simp: post_def Let_def split: option.splits)

lemma parse_with_llm_world:
  "snd (parse_with_llm E raw d w) = w\<lparr>calls := Suc (calls w)\<rparr>"
  by (simp add: parse_with_llm_def Let_def split: sum.splits)

lemma process_row_skip:
  "\<not> last_ts l < timestamp_of r \<Longrightarrow> process_row E r l w = (Inr l, print (ProcessingRow r) w)"
  using eligible_iff [of "timestamp_of r" "last_ts l"]
  by (auto simp: process_row_def Let_def)

lemma try_block_Inr:
  assumes "try_block E ts uid raw l w = (Inr u, l1, w1)"
  shows "\<exists>pj st. parsed_logs w1 = parsed_logs w @ [\<lparr>a_timestamp = ts, a_user_id = uid, a_raw_text = raw,
                           a_parsed_json = pj, a_status = st\<rparr>]
          \<and> fst (parse_with_llm E raw (iso_now_date_utc E w) w) = Inr (pj, st)
          \<and> l1 = l\<lparr>parsed_json := Some pj\<rparr>
          \<and> state_file w1 = state_file w \<and> state_writes w1 = state_writes w
          \<and> workouts w1 = workouts w \<and> activities w1 = activities w \<and> stdout w1 = stdout w"
proof -
  obtain res wp where p: "parse_with_llm E raw (iso_now_date_utc E w) w = (res, wp)"
    by (cases "parse_with_llm E raw (iso_now_date_utc E w) w")
  have wp: "wp = w\<lparr>calls := Suc (calls w)\<rparr>"
    using parse_with_llm_world [of E raw "iso_now_date_utc E w" w] p by simp
  from assms p obtain pj st where res: "res = Inr (pj, st)"
    by (cases res) (auto simp: try_block_def)
  from assms p res have ap: "append_parsed E ts uid raw pj st wp = (Inr u, w1)" and l1: "l1 = l\<lparr>parsed_json := Some pj\<rparr>"
    by (auto simp: try_block_def split: prod.splits)
  from post_world [OF ap [unfolded append_parsed_def]] wp p res l1
  show ?thesis by auto
qed

lemma try_block_Inl:
  assumes "try_block E ts uid raw l w = (Inl e, l1, w1)"
  shows "parsed_logs w1 = parsed_logs w
          \<and> state_file w1 = state_file w \<and> state_writes w1 = state_writes w
          \<and> workouts w1 = workouts w \<and> activities w1 = activities w \<and> stdout w1 = stdout w"
proof -
  obtain res wp where p: "parse_with_llm E raw (iso_now_date_utc E w) w = (res, wp)"
    by (cases "parse_with_llm E raw (iso_now_date_utc E w) w")
  have wp: "wp = w\<lparr>calls := Suc (calls w)\<rparr>"
    using parse_with_llm_world [of E raw "iso_now_date_utc E w" w] p by simp
  show ?thesis
  proof (cases res)
    case (Inl e')
    with assms p wp show ?thesis by (auto simp: try_block_def)
  next
    case (Inr ps)
    obtain pj st where ps: "ps = (pj, st)" by (cases ps)
    from assms p Inr ps have ap: "append_parsed E ts uid raw pj st wp = (Inl e, w1)"
      by (auto simp: try_block_def split: prod.splits)
    from post_world [OF ap [unfolded append_parsed_def]] wp show ?thesis by auto
  qed
qed

lemma except_block_world:
  assumes "except_block E ts uid raw e w = (res, w')"
  shows "parsed_logs w' = parsed_logs w @
           (case res of Inl e' \<Rightarrow> []
            | Inr u \<Rightarrow> [\<lparr>a_timestamp = ts, a_user_id = uid, a_raw_text = raw,
                         a_parsed_json = json_dumps E (JObj [(''error'', JStr (str_exn e))]),
                         a_status = JStr ''error''\<rparr>])
          \<and> state_file w' = state_file w \<and> state_writes w' = state_writes w
          \<and> workouts w' = workouts w \<and> activities w' = activities w \<and> stdout w' = stdout w"
  using post_world [OF assms [unfolded except_block_def Let_def append_parsed_def]]
  by (auto split: sum.splits)

lemma process_row_handled:
  assumes "last_ts l < timestamp_of r" and "process_row E r l w = (Inr l', w')"
  shows "\<exists>a. parsed_logs w' = parsed_logs w @ [a] \<and> row_key a = entry_key r"
    and "last_ts l' = timestamp_of r" and "processed_any l'"
    and "state_file w' = state_file w \<and> state_writes w' = state_writes w
          \<and> workouts w' = workouts w \<and> activities w' = activities w"
proof -
  let ?w = "print (ProcessingRow r) w"
  let ?ts = "timestamp_of r" and ?uid = "get_str r ''user_id'' ''''" and ?raw = "get_str r ''raw_text'' ''''"
  obtain res l1 w1 where tb: "try_block E ?ts ?uid ?raw l ?w = (res, l1, w1)"
    by (cases "try_block E ?ts ?uid ?raw l ?w") auto
  have g: "?ts \<noteq> ''''" "\<not> (last_ts l \<noteq> '''' \<and> ?ts \<le> last_ts l)"
    using eligible_iff [of ?ts "last_ts l"] assms(1) by auto
  have all: "(\<exists>a. parsed_logs w' = parsed_logs w @ [a] \<and> row_key a = entry_key r)
     \<and> last_ts l' = timestamp_of r \<and> processed_any l'
     \<and> state_file w' = state_file w \<and> state_writes w' = state_writes w
          \<and> workouts w' = workouts w \<and> activities w' = activities w"
  proof (cases res)
    case (Inr u)
    with tb assms(2) g have eq: "l' = l1\<lparr>last_ts := ?ts, processed_any := True\<rparr>" "w' = w1"
      by (auto simp: process_row_def Let_def)
    from try_block_Inr [OF tb [unfolded Inr]] eq show ?thesis
      by (auto simp: print_def row_key_def entry_key_def)
  next
    case (Inl e)
    obtain res2 w2 where eb: "except_block E ?ts ?uid ?raw e w1 = (res2, w2)"
      by (cases "except_block E ?ts ?uid ?raw e w1")
    from tb Inl eb assms(2) g obtain u where r2: "res2 = Inr u"
      and eq: "l' = l1\<lparr>last_ts := ?ts, processed_any := True\<rparr>" "w' = w2"
      by (cases res2) (auto simp: process_row_def Let_def)
    from try_block_Inl [OF tb [unfolded Inl]] except_block_world [OF eb] r2 eq show ?thesis
      by (auto simp: print_def row_key_def entry_key_def)
  qed
  from all show "\<exists>a. parsed_logs w' = parsed_logs w @ [a] \<and> row_key a = entry_key r"
    and "last_ts l' = timestamp_of r" and "processed_any l'"
    and "state_file w' = state_file w \<and> state_writes w' = state_writes w
          \<and> workouts w' = workouts w \<and> activities w' = activities w"
    by blast+
qed

lemma process_row_abort:
  assumes "process_row E r l w = (Inl e, w')"
  shows "last_ts l < timestamp_of r" and "parsed_logs w' = parsed_logs w"
    and "state_file w' = state_file w \<and> state_writes w' = state_writes w
          \<and> workouts w' = workouts w \<and> activities w' = activities w"
proof -
  let ?w = "print (ProcessingRow r) w"
  let ?ts = "timestamp_of r" and ?uid = "get_str r ''user_id'' ''''" and ?raw = "get_str r ''raw_text'' ''''"
  show g: "last_ts l < timestamp_of r"
    using assms process_row_skip [of l r E w] by (cases "last_ts l < timestamp_of r") auto
  have g: "?ts \<noteq> ''''" "\<not> (last_ts l \<noteq> '''' \<and> ?ts \<le> last_ts l)"
    using eligible_iff [of ?ts "last_ts l"] g by auto
  obtain res l1 w1 where tb: "try_block E ?ts ?uid ?raw l ?w = (res, l1, w1)"
    by (cases "try_block E ?ts ?uid ?raw l ?w") auto
  from tb assms g obtain e0 where res: "res = Inl e0"
    by (cases res) (auto simp: process_row_def Let_def)
  obtain res2 w2 where eb: "except_block E ?ts ?uid ?raw e0 w1 = (res2, w2)"
    by (cases "except_block E ?ts ?uid ?raw e0 w1")
  from tb res eb assms g have r2: "res2 = Inl e" and eq: "w' = w2"
    by (cases res2; auto simp: process_row_def Let_def)+
  from try_block_Inl [OF tb [unfolded res]] except_block_world [OF eb] r2 eq
  have "parsed_logs w' = parsed_logs w \<and> state_file w' = state_file w \<and> state_writes w' = state_writes w
          \<and> workouts w' = workouts w \<and> activities w' = activities w"
    by (auto simp: print_def)
  then show "parsed_logs w' = parsed_logs w"
    and "state_file w' = state_file w \<and> state_writes w' = state_writes w
          \<and> workouts w' = workouts w \<and> activities w' = activities w" by blast+
qed

subsection \<open>The loop\<close>

lemma loop_frame:
  "loop E rs l w = (res, w') \<Longrightarrow>
     state_file w' = state_file w \<and> state_writes w' = state_writes w
       \<and> workouts w' = workouts w \<and> activities w' = activities w"
proof (induction rs arbitrary: l w)
  case Nil
  then show ?case by simp
next
  case (Cons r rs)
  obtain res1 w1 where pr: "process_row E r l w = (res1, w1)"
    by (cases "process_row E r l w")
  have f1: "state_file w1 = state_file w \<and> state_writes w1 = state_writes w
       \<and> workouts w1 = workouts w \<and> activities w1 = activities w"
  proof (cases res1)
    case (Inl e)
    with pr process_row_abort(3) [of E r l w e w1] show ?thesis by simp
  next
    case (Inr l1)
    show ?thesis
    proof (cases "last_ts l < timestamp_of r")
      case True
      with pr Inr process_row_handled(4) [of l r E w l1 w1] show ?thesis by simp
    next
      case False
      with pr process_row_skip [of l r E w] show ?thesis by (auto simp: print_def)
    qed
  qed
  show ?case
  proof (cases res1)
    case (Inl e)
    with pr Cons.prems f1 show ?thesis by auto
  next
    case (Inr l1)
    with pr Cons.prems have "loop E rs l1 w1 = (res, w')" by simp
    from Cons.IH [OF this] f1 show ?thesis by simp
  qed
qed

lemma loop_finished:
  "loop E rs l w = (Inr l', w') \<Longrightarrow>
     \<exists>new. parsed_logs w' = parsed_logs w @ new
       \<and> map row_key new = map entry_key (passing (last_ts l) rs)
       \<and> last_ts l' = last (last_ts l # map timestamp_of (passing (last_ts l) rs))
       \<and> processed_any l' = (processed_any l \<or> passing (last_ts l) rs \<noteq> [])"
proof (induction rs arbitrary: l w)
  case Nil
  then show ?case by simp
next
  case (Cons r rs)
  obtain res1 w1 where pr: "process_row E r l w = (res1, w1)"
    by (cases "process_row E r l w")
  from pr Cons.prems obtain l1 where res1: "res1 = Inr l1" and rest: "loop E rs l1 w1 = (Inr l', w')"
    by (cases res1) auto
  from Cons.IH [OF rest] obtain new where new: "parsed_logs w' = parsed_logs w1 @ new"
      "map row_key new = map entry_key (passing (last_ts l1) rs)"
      "last_ts l' = last (last_ts l1 # map timestamp_of (passing (last_ts l1) rs))"
      "processed_any l' = (processed_any l1 \<or> passing (last_ts l1) rs \<noteq> [])"
    by blast
  show ?case
  proof (cases "last_ts l < timestamp_of r")
    case True
    from process_row_handled [OF True pr [unfolded res1]] obtain a where
      a: "parsed_logs w1 = parsed_logs w @ [a]" "row_key a = entry_key r"
      and l1: "last_ts l1 = timestamp_of r" "processed_any l1" by blast
    have "parsed_logs w' = parsed_logs w @ (a # new)" using new(1) a(1) by simp
    moreover have "map row_key (a # new) = map entry_key (passing (last_ts l) (r # rs))"
      using True a(2) new(2) l1(1) by simp
    moreover have "last_ts l' = last (last_ts l # map timestamp_of (passing (last_ts l) (r # rs)))"
      using True new(3) l1(1) by simp
    moreover have "processed_any l' = (processed_any l \<or> passing (last_ts l) (r # rs) \<noteq> [])"
      using True new(4) l1(2) by simp
    ultimately show ?thesis by blast
  next
    case False
    with pr res1 process_row_skip [of l r E w] have "l1 = l" "parsed_logs w1 = parsed_logs w"
      by (auto simp: print_def)
    with new False show ?thesis by auto
  qed
qed

lemma loop_aborted:
  "loop E rs l w = (Inl e, w') \<Longrightarrow>
     \<exists>new. parsed_logs w' = parsed_logs w @ new
       \<and> strict_prefix (map row_key new) (map entry_key (passing (last_ts l) rs))"
proof (induction rs arbitrary: l w)
  case Nil
  then show ?case by simp
next
  case (Cons r rs)
  obtain res1 w1 where pr: "process_row E r l w = (res1, w1)"
    by (cases "process_row E r l w")
  show ?case
  proof (cases res1)
    case (Inl e1)
    with pr Cons.prems have eq: "e1 = e" "w1 = w'" by auto
    from process_row_abort(1,2) [OF pr [unfolded Inl]] eq
    have "last_ts l < timestamp_of r" "parsed_logs w' = parsed_logs w" by auto
    then have "parsed_logs w' = parsed_logs w @ []
       \<and> strict_prefix (map row_key []) (map entry_key (passing (last_ts l) (r # rs)))"
      by simp
    then show ?thesis by blast
  next
    case (Inr l1)
    with pr Cons.prems have rest: "loop E rs l1 w1 = (Inl e, w')" by simp
    from Cons.IH [OF rest] obtain new where new: "parsed_logs w' = parsed_logs w1 @ new"
      "strict_prefix (map row_key new) (map entry_key (passing (last_ts l1) rs))" by blast
    show ?thesis
    proof (cases "last_ts l < timestamp_of r")
      case True
      from process_row_handled [OF True pr [unfolded Inr]] obtain a where
        a: "parsed_logs w1 = parsed_logs w @ [a]" "row_key a = entry_key r"
        and l1: "last_ts l1 = timestamp_of r" by blast
      have "parsed_logs w' = parsed_logs w @ (a # new)" using new(1) a(1) by simp
      moreover have "strict_prefix (map row_key (a # new)) (map entry_key (passing (last_ts l) (r # rs)))"
        using True a(2) new(2) l1 by simp
      ultimately show ?thesis by blast
    next
      case False
      with pr Inr process_row_skip [of l r E w] have "l1 = l" "parsed_logs w1 = parsed_logs w"
        by (auto simp: print_def)
      with new False show ?thesis by auto
    qed
  qed
qed

subsection \<open>Eligibility over a list of entries\<close>

lemma passing_ascending: "sorted_wrt (<) (c # map timestamp_of (passing c rs))"
proof (induction rs arbitrary: c)
  case Nil
  then show ?case by simp
next
  case (Cons r rs)
  show ?case
  proof (cases "c < timestamp_of r")
    case True
    from Cons.IH [of "timestamp_of r"] True show ?thesis by auto
  next
    case False
    with Cons.IH [of c] show ?thesis by simp
  qed
qed

lemma passing_above: "r \<in> set (passing c rs) \<Longrightarrow> c < timestamp_of r"
  using passing_ascending [of c rs] by auto

lemma passing_subset: "set (passing c rs) \<subseteq> set rs"
  by (induction rs arbitrary: c) auto

lemma passing_last_bound:
  "c \<le> last (c # map timestamp_of (passing c rs))
     \<and> (\<forall>r \<in> set rs. timestamp_of r \<le> last (c # map timestamp_of (passing c rs)))"
proof (induction rs arbitrary: c)
  case Nil
  then show ?case by simp
next
  case (Cons r rs)
  show ?case
  proof (cases "c < timestamp_of r")
    case True
    from Cons.IH [of "timestamp_of r"] True show ?thesis by auto
  next
    case False
    with Cons.IH [of c] show ?thesis by auto
  qed
qed

lemma passing_Nil_iff: "passing c rs = [] \<longleftrightarrow> (\<forall>r \<in> set rs. \<not> c < timestamp_of r)"
  by (induction rs arbitrary: c) auto

lemma passing_timestamps_sorted:
  "sorted (map timestamp_of rs) \<Longrightarrow>
     set (map timestamp_of (passing c rs)) = {t \<in> set (map timestamp_of rs). c < t}"
proof (induction rs arbitrary: c)
  case Nil
  then show ?case by simp
next
  case (Cons r rs)
  from Cons.prems have srt: "sorted (map timestamp_of rs)"
    and le: "\<forall>x \<in> set rs. timestamp_of r \<le> timestamp_of x" by auto
  show ?case
  proof (cases "c < timestamp_of r")
    case True
    have "set (map timestamp_of (passing c (r # rs)))
            = insert (timestamp_of r) {t \<in> set (map timestamp_of rs). timestamp_of r < t}"
      using True Cons.IH [OF srt, of "timestamp_of r"] by simp
    also have "\<dots> = {t \<in> set (map timestamp_of (r # rs)). c < t}"
      using True le by (auto simp: order.strict_iff_order)
    finally show ?thesis .
  next
    case False
    with Cons.IH [OF srt, of c] show ?thesis by auto
  qed
qed

lemma first_per_timestamp_filter:
  "(\<And>r. r \<in> set rs \<Longrightarrow> P r \<Longrightarrow> \<not> Q r \<Longrightarrow> timestamp_of r \<in> set seen) \<Longrightarrow>
   (\<And>r. Q r \<Longrightarrow> P r) \<Longrightarrow>
     first_per_timestamp seen (filter P rs) = first_per_timestamp seen (filter Q rs)"
proof (induction rs arbitrary: seen)
  case Nil
  then show ?case by simp
next
  case (Cons r rs)
  have ih: "first_per_timestamp seen' (filter P rs) = first_per_timestamp seen' (filter Q rs)"
    if "set seen \<subseteq> set seen'" for seen'
    using Cons.prems that by (intro Cons.IH) auto
  show ?case
  proof (cases "Q r")
    case True
    with Cons.prems(2) have "P r" by simp
    with True ih [of seen] ih [of "timestamp_of r # seen"] show ?thesis by auto
  next
    case False
    show ?thesis
    proof (cases "P r")
      case True
      with False Cons.prems(1) have "timestamp_of r \<in> set seen" by simp
      with True False ih [of seen] show ?thesis by simp
    next
      case False
      with \<open>\<not> Q r\<close> ih [of seen] show ?thesis by simp
    qed
  qed
qed

lemma first_per_timestamp_seen_irrelevant:
  "(\<And>r. r \<in> set rs \<Longrightarrow> timestamp_of r \<notin> set seen - set seen') \<Longrightarrow> set seen' \<subseteq> set seen \<Longrightarrow>
     first_per_timestamp seen rs = first_per_timestamp seen' rs"
proof (induction rs arbitrary: seen seen')
  case Nil
  then show ?case by simp
next
  case (Cons r rs)
  have r: "timestamp_of r \<in> set seen \<longleftrightarrow> timestamp_of r \<in> set seen'"
    using Cons.prems by auto
  have a: "first_per_timestamp seen rs = first_per_timestamp seen' rs"
    using Cons.prems by (intro Cons.IH) auto
  have b: "first_per_timestamp (timestamp_of r # seen) rs = first_per_timestamp (timestamp_of r # seen') rs"
    using Cons.prems by (intro Cons.IH) auto
  from r a b show ?case by simp
qed

lemma passing_first_per_timestamp:
  "sorted (map timestamp_of rs) \<Longrightarrow>
     passing c rs = first_per_timestamp [] (filter (\<lambda>r. c < timestamp_of r) rs)"
proof (induction rs arbitrary: c)
  case Nil
  then show ?case by simp
next
  case (Cons r rs)
  from Cons.prems have srt: "sorted (map timestamp_of rs)"
    and le: "\<And>x. x \<in> set rs \<Longrightarrow> timestamp_of r \<le> timestamp_of x" by auto
  show ?case
  proof (cases "c < timestamp_of r")
    case True
    let ?t = "timestamp_of r"
    have "passing c (r # rs) = r # first_per_timestamp [] (filter (\<lambda>x. ?t < timestamp_of x) rs)"
      using True Cons.IH [OF srt, of ?t] by simp
    also have "first_per_timestamp [] (filter (\<lambda>x. ?t < timestamp_of x) rs)
                 = first_per_timestamp [?t] (filter (\<lambda>x. ?t < timestamp_of x) rs)"
      by (rule sym, rule first_per_timestamp_seen_irrelevant) auto
    also have "\<dots> = first_per_timestamp [?t] (filter (\<lambda>x. c < timestamp_of x) rs)"
    proof (rule sym, rule first_per_timestamp_filter)
      fix x assume "x \<in> set rs" "c < timestamp_of x" "\<not> ?t < timestamp_of x"
      with le [of x] show "timestamp_of x \<in> set [?t]" by auto
    next
      fix x assume "?t < timestamp_of x"
      with True show "c < timestamp_of x" by simp
    qed
    finally show ?thesis using True by simp
  next
    case False
    with Cons.IH [OF srt, of c] show ?thesis by simp
  qed
qed

lemma passing_permutation:
  assumes "mset rows' = mset rows"
  shows "map timestamp_of (passing c (sort_key timestamp_of rows'))
           = map timestamp_of (passing c (sort_key timestamp_of rows))"
proof -
  let ?p = "\<lambda>rs. map timestamp_of (passing c (sort_key timestamp_of rs))"
  have set_eq: "set rows' = set rows" using assms by (metis set_mset_mset)
  have s: "set (?p rs) = {t \<in> timestamp_of ` set rs. c < t}" for rs
    using passing_timestamps_sorted [of "sort_key timestamp_of rs" c] by simp
  have a: "sorted_wrt (<) (?p rs)" for rs
    using passing_ascending [of c "sort_key timestamp_of rs"] by simp
  have "sorted (?p rows') \<and> distinct (?p rows')" "sorted (?p rows) \<and> distinct (?p rows)"
    using a [of rows'] a [of rows] by (simp_all add: strict_sorted_iff)
  moreover have "set (?p rows') = set (?p rows)" using s set_eq by simp
  ultimately show ?thesis by (blast intro: sorted_distinct_set_unique)
qed

subsection \<open>The whole run\<close>

lemma post_frame:
  assumes "post E req w = (res, w')"
  shows "state_file w' = state_file w \<and> state_writes w' = state_writes w \<and> stdout w' = stdout w"
    and "(\<forall>row. req \<noteq> AppendParsed row) \<longrightarrow> parsed_logs w' = parsed_logs w"
proof -
  note pw = post_world [OF assms]
  show "state_file w' = state_file w \<and> state_writes w' = state_writes w \<and> stdout w' = stdout w"
    using pw by (cases req; cases res; simp)
  show "(\<forall>row. req \<noteq> AppendParsed row) \<longrightarrow> parsed_logs w' = parsed_logs w"
    using pw by (cases req; cases res; simp)
qed

lemma make_workout_id_frame:
  assumes "make_workout_id E d w = (res, w')"
  shows "state_file w' = state_file w \<and> state_writes w' = state_writes w
           \<and> parsed_logs w' = parsed_logs w \<and> workouts w' = workouts w"
  using assms
  by (cases d) (auto simp: get_workouts_count_for_date_def Let_def split: sum.splits)

lemma append_workout_row_frame:
  assumes "append_workout_row E wid wk w = (res, w')"
  shows "state_file w' = state_file w \<and> state_writes w' = state_writes w
           \<and> parsed_logs w' = parsed_logs w"
proof (cases wk)
  case (JObj d)
  with assms post_frame [of E _ w res w'] show ?thesis by auto
qed (use assms in auto)

lemma append_activity_rows_frame:
  assumes "append_activity_rows E wid d acts w = (res, w')"
  shows "state_file w' = state_file w \<and> state_writes w' = state_writes w
           \<and> parsed_logs w' = parsed_logs w"
  using assms post_frame [of E _ w res w']
  by (auto simp: append_activity_rows_def split: sum.splits)

lemma post_loop_frame:
  assumes "post_loop E l w = (res, w')"
  shows "state_file w' = state_file w \<and> state_writes w' = state_writes w
           \<and> parsed_logs w' = parsed_logs w"
proof (cases "parsed_json l")
  case None
  with assms show ?thesis by (simp add: post_loop_def)
next
  case (Some pj)
  show ?thesis
  proof (cases "json_loads E pj")
    case (Inl m)
    with assms Some show ?thesis by (simp add: post_loop_def)
  next
    case obj: (Inr obj)
    show ?thesis
    proof (cases "json_get obj ''status'' (JStr ''needs_review'')")
      case (Inl e)
      with assms Some obj show ?thesis by (simp add: post_loop_def)
    next
      case st: (Inr status)
      show ?thesis
      proof (cases "status = JStr ''ok''")
        case False
        with assms Some obj st show ?thesis by (simp add: post_loop_def)
      next
        case True
        show ?thesis
        proof (cases "json_subscript obj ''workout''")
          case (Inl e)
          with assms Some obj st True show ?thesis by (simp add: post_loop_def)
        next
          case wk: (Inr wk)
          show ?thesis
          proof (cases "json_subscript wk ''date''")
            case (Inl e)
            with assms Some obj st True wk show ?thesis by (simp add: post_loop_def)
          next
            case d: (Inr d)
            obtain r1 w1 where a: "make_workout_id E d w = (r1, w1)"
              by (cases "make_workout_id E d w")
            note f1 = make_workout_id_frame [OF a]
            show ?thesis
            proof (cases r1)
              case (Inl e)
              with assms Some obj st True wk d a have "w' = w1" by (simp add: post_loop_def)
              with f1 show ?thesis by simp
            next
              case wid: (Inr wid)
              obtain r2 w2 where b: "append_workout_row E wid wk w1 = (r2, w2)"
                by (cases "append_workout_row E wid wk w1")
              note f2 = append_workout_row_frame [OF b]
              show ?thesis
              proof (cases r2)
                case (Inl e)
                with assms Some obj st True wk d a wid b have "w' = w2"
                  by (simp add: post_loop_def)
                with f1 f2 show ?thesis by simp
              next
                case u: (Inr u)
                show ?thesis
                proof (cases "json_get obj ''activities'' (JArr [])")
                  case (Inl e)
                  with assms Some obj st True wk d a wid b u have "w' = w2"
                    by (simp add: post_loop_def)
                  with f1 f2 show ?thesis by simp
                next
                  case (Inr acts)
                  with assms Some obj st True wk d a wid b u
                  have "append_activity_rows E wid d acts w2 = (res, w')"
                    by (simp add: post_loop_def)
                  from append_activity_rows_frame [OF this] f1 f2 show ?thesis by simp
                qed
              qed
            qed
          qed
        qed
      qed
    qed
  qed
qed

lemma main_loop_fetch_failed:
  assumes "fetch_reply E (calls w0) 100 = Inl e"
  shows "main E w0 = (Inl e, w0\<lparr>stdout := stdout w0 @ [LoadingState, LastTs (loaded_last_ts w0)],
                               calls := Suc (calls w0)\<rparr>)"
  using assms by (simp add: main_def main_loop_def fetch_recent_raw_def print_def Let_def)

lemma main_loop_fetched:
  assumes "fetch_reply E (calls w0) 100 = Inr rows"
  shows "main_loop E w0 =
           loop E (sort_key timestamp_of rows)
             \<lparr>last_ts = loaded_last_ts w0, processed_any = False, parsed_json = None\<rparr>
             (w0\<lparr>stdout := stdout w0 @ [LoadingState, LastTs (loaded_last_ts w0)],
                 calls := Suc (calls w0)\<rparr>)"
  using assms by (simp add: main_loop_def fetch_recent_raw_def print_def Let_def)

lemma main_after_loop:
  assumes "main_loop E w0 = (Inr l, w4)"
  shows "parsed_logs (snd (main E w0)) = parsed_logs w4"
    and "state_file (snd (main E w0)) =
           (if processed_any l then Some [(''last_timestamp'', last_ts l)] else state_file w4)"
    and "state_writes (snd (main E w0)) =
           (if processed_any l then Suc (state_writes w4) else state_writes w4)"
proof -
  let ?w5 = "if processed_any l
             then print (Done (last_ts l)) (save_state [(''last_timestamp'', last_ts l)] w4)
             else print NothingNew w4"
  obtain res w' where pl: "post_loop E l ?w5 = (res, w')" by (cases "post_loop E l ?w5")
  have m: "main E w0 = (res, w')" using assms pl by (simp add: main_def Let_def)
  from post_loop_frame [OF pl] m
  show "parsed_logs (snd (main E w0)) = parsed_logs w4"
    and "state_file (snd (main E w0)) =
           (if processed_any l then Some [(''last_timestamp'', last_ts l)] else state_file w4)"
    and "state_writes (snd (main E w0)) =
           (if processed_any l then Suc (state_writes w4) else state_writes w4)"
    by (simp_all add: print_def save_state_def)
qed

lemma main_aborted_in_loop:
  assumes "main_loop E w0 = (Inl e, w4)"
  shows "main E w0 = (Inl e, w4)"
  using assms by (simp add: main_def)

text \<open>What a run whose fetch returned \<open>rows\<close> leaves behind, when its loop runs to the end
  and when an exception escapes from it.\<close>

lemma run_finished:
  assumes fetch: "fetch_reply E (calls w0) 100 = Inr rows"
    and fin: "fst (main_loop E w0) = Inr l"
  shows "map row_key (audit_rows_written w0 (snd (main E w0)))
           = map entry_key (passing (loaded_last_ts w0) (sort_key timestamp_of rows))"
    and "last_ts l = last (loaded_last_ts w0
           # map timestamp_of (passing (loaded_last_ts w0) (sort_key timestamp_of rows)))"
    and "processed_any l = (passing (loaded_last_ts w0) (sort_key timestamp_of rows) \<noteq> [])"
    and "state_file (snd (main E w0)) =
           (if processed_any l then Some [(''last_timestamp'', last_ts l)] else state_file w0)"
    and "state_writes (snd (main E w0)) =
           (if processed_any l then Suc (state_writes w0) else state_writes w0)"
proof -
  let ?l0 = "\<lparr>last_ts = loaded_last_ts w0, processed_any = False, parsed_json = None\<rparr>"
  let ?w3 = "w0\<lparr>stdout := stdout w0 @ [LoadingState, LastTs (loaded_last_ts w0)],
                 calls := Suc (calls w0)\<rparr>"
  obtain w4 where ml: "main_loop E w0 = (Inr l, w4)" using fin by (cases "main_loop E w0") auto
  then have lp: "loop E (sort_key timestamp_of rows) ?l0 ?w3 = (Inr l, w4)"
    using main_loop_fetched [OF fetch] by simp
  from loop_finished [OF lp] obtain new where new: "parsed_logs w4 = parsed_logs w0 @ new"
    "map row_key new = map entry_key (passing (loaded_last_ts w0) (sort_key timestamp_of rows))"
    "last_ts l = last (loaded_last_ts w0
           # map timestamp_of (passing (loaded_last_ts w0) (sort_key timestamp_of rows)))"
    "processed_any l = (passing (loaded_last_ts w0) (sort_key timestamp_of rows) \<noteq> [])"
    by auto
  from new(1,2) main_after_loop(1) [OF ml]
  show "map row_key (audit_rows_written w0 (snd (main E w0)))
           = map entry_key (passing (loaded_last_ts w0) (sort_key timestamp_of rows))"
    by (simp add: audit_rows_written_def)
  from new(3) show "last_ts l = last (loaded_last_ts w0
           # map timestamp_of (passing (loaded_last_ts w0) (sort_key timestamp_of rows)))" .
  from new(4) show "processed_any l = (passing (loaded_last_ts w0) (sort_key timestamp_of rows) \<noteq> [])" .
  from loop_frame [OF lp] main_after_loop(2,3) [OF ml]
  show "state_file (snd (main E w0)) =
           (if processed_any l then Some [(''last_timestamp'', last_ts l)] else state_file w0)"
    and "state_writes (snd (main E w0)) =
           (if processed_any l then Suc (state_writes w0) else state_writes w0)"
    by simp_all
qed

lemma run_aborted:
  assumes fetch: "fetch_reply E (calls w0) 100 = Inr rows"
    and ab: "fst (main_loop E w0) = Inl e"
  shows "strict_prefix (map row_key (audit_rows_written w0 (snd (main E w0))))
           (map entry_key (passing (loaded_last_ts w0) (sort_key timestamp_of rows)))"
    and "state_file (snd (main E w0)) = state_file w0"
    and "state_writes (snd (main E w0)) = state_writes w0"
proof -
  let ?l0 = "\<lparr>last_ts = loaded_last_ts w0, processed_any = False, parsed_json = None\<rparr>"
  let ?w3 = "w0\<lparr>stdout := stdout w0 @ [LoadingState, LastTs (loaded_last_ts w0)],
                 calls := Suc (calls w0)\<rparr>"
  obtain w4 where ml: "main_loop E w0 = (Inl e, w4)" using ab by (cases "main_loop E w0") auto
  then have lp: "loop E (sort_key timestamp_of rows) ?l0 ?w3 = (Inl e, w4)"
    using main_loop_fetched [OF fetch] by simp
  have m: "snd (main E w0) = w4" using main_aborted_in_loop [OF ml] by simp
  from loop_aborted [OF lp] obtain new where new: "parsed_logs w4 = parsed_logs w0 @ new"
    "strict_prefix (map row_key new)
       (map entry_key (passing (loaded_last_ts w0) (sort_key timestamp_of rows)))"
    by auto
  from new m show "strict_prefix (map row_key (audit_rows_written w0 (snd (main E w0))))
           (map entry_key (passing (loaded_last_ts w0) (sort_key timestamp_of rows)))"
    by (simp add: audit_rows_written_def)
  from loop_frame [OF lp] m
  show "state_file (snd (main E w0)) = state_file w0"
    and "state_writes (snd (main E w0)) = state_writes w0" by simp_all
qed

lemma timestamps_of_keys:
  "map row_key new = map entry_key rs \<Longrightarrow> map a_timestamp new = map timestamp_of rs"
proof -
  assume "map row_key new = map entry_key rs"
  then have "map fst (map row_key new) = map fst (map entry_key rs)" by simp
  then show ?thesis by (simp add: row_key_def entry_key_def comp_def)
qed

subsection \<open>What a run handles\<close>

lemma handled_keys_prefix:
  assumes "fetch_reply E (calls w0) 100 = Inr rows"
  shows "prefix (map row_key (audit_rows_written w0 (snd (main E w0))))
           (map entry_key (passing (loaded_last_ts w0) (sort_key timestamp_of rows)))"
proof (cases "fst (main_loop E w0)")
  case (Inl e)
  from run_aborted(1) [OF assms Inl] show ?thesis by (simp add: strict_prefix_def)
next
  case (Inr l)
  from run_finished(1) [OF assms Inr] show ?thesis by simp
qed

lemma handled_timestamps_prefix:
  assumes "fetch_reply E (calls w0) 100 = Inr rows"
  shows "prefix (handled_timestamps E w0)
           (map timestamp_of (passing (loaded_last_ts w0) (sort_key timestamp_of rows)))"
proof -
  have "prefix (map fst (map row_key (audit_rows_written w0 (snd (main E w0)))))
          (map fst (map entry_key (passing (loaded_last_ts w0) (sort_key timestamp_of rows))))"
    using handled_keys_prefix [OF assms] by (rule map_mono_prefix)
  then show ?thesis
    by (simp add: handled_timestamps_def row_key_def entry_key_def comp_def)
qed

lemma handled_timestamps_finished:
  assumes "fetch_reply E (calls w0) 100 = Inr rows" and "fst (main_loop E w0) = Inr l"
  shows "handled_timestamps E w0
           = map timestamp_of (passing (loaded_last_ts w0) (sort_key timestamp_of rows))"
  using timestamps_of_keys [OF run_finished(1) [OF assms]]
  by (simp add: handled_timestamps_def)

lemma fetch_failed_nothing_written:
  assumes "fetch_reply E (calls w0) 100 = Inl e"
  shows "audit_rows_written w0 (snd (main E w0)) = []"
    and "state_file (snd (main E w0)) = state_file w0"
    and "state_writes (snd (main E w0)) = state_writes w0"
  using main_loop_fetch_failed [OF assms] by (simp_all add: audit_rows_written_def)

lemma sorted_wrt_prefix: "prefix xs ys \<Longrightarrow> sorted_wrt P ys \<Longrightarrow> sorted_wrt P xs"
  by (auto simp: prefix_def sorted_wrt_append)

lemma handled_timestamps_ascending: "sorted_wrt (<) (handled_timestamps E w0)"
proof (cases "fetch_reply E (calls w0) 100")
  case (Inl e)
  from fetch_failed_nothing_written(1) [OF Inl] show ?thesis
    by (simp add: handled_timestamps_def)
next
  case (Inr rows)
  have "sorted_wrt (<) (map timestamp_of (passing (loaded_last_ts w0) (sort_key timestamp_of rows)))"
    using passing_ascending [of "loaded_last_ts w0" "sort_key timestamp_of rows"] by simp
  with handled_timestamps_prefix [OF Inr] show ?thesis by (rule sorted_wrt_prefix)
qed

lemma finished_fetched:
  assumes "fst (main_loop E w0) = Inr l"
  obtains rows where "fetch_reply E (calls w0) 100 = Inr rows"
proof (cases "fetch_reply E (calls w0) 100")
  case (Inl e)
  with assms show ?thesis
    by (simp add: main_loop_def fetch_recent_raw_def print_def Let_def)
next
  case (Inr rows)
  then show ?thesis by (rule that)
qed


lemma distinct_count_one:
  "distinct xs \<Longrightarrow> x \<in> set xs \<Longrightarrow> length (filter (\<lambda>y. y = x) xs) = 1"
proof (induction xs)
  case Nil
  then show ?case by simp
next
  case (Cons y ys)
  show ?case
  proof (cases "y = x")
    case True
    with Cons.prems have "x \<notin> set ys" by simp
    then have "filter (\<lambda>y. y = x) ys = []" by (induction ys) auto
    with True show ?thesis by simp
  next
    case False
    with Cons show ?thesis by simp
  qed
qed

lemma loaded_last_ts_saved:
  "state_file w = Some [(''last_timestamp'', t)] \<Longrightarrow> loaded_last_ts w = t"
  by (simp add: loaded_last_ts_def load_state_def get_str_def)

lemma loaded_last_ts_same_file:
  "state_file w = state_file w0 \<Longrightarrow> loaded_last_ts w = loaded_last_ts w0"
  by (simp add: loaded_last_ts_def load_state_def)

lemma nothing_eligible_nothing_written:
  assumes fetch: "fetch_reply E (calls w) 100 = Inr rows"
    and none: "\<forall>r \<in> set rows. \<not> loaded_last_ts w < timestamp_of r"
  shows "audit_rows_written w (snd (main E w)) = []"
proof -
  have "passing (loaded_last_ts w) (sort_key timestamp_of rows) = []"
    using none by (simp add: passing_Nil_iff)
  with handled_keys_prefix [OF fetch] show ?thesis by simp
qed

lemma after_finished_run_nothing_eligible:
  assumes fetch: "fetch_reply E (calls w0) 100 = Inr rows"
    and fin: "fst (main_loop E w0) = Inr l"
  shows "\<forall>r \<in> set rows. \<not> loaded_last_ts (snd (main E w0)) < timestamp_of r"
proof -
  let ?c = "loaded_last_ts w0"
  let ?P = "passing ?c (sort_key timestamp_of rows)"
  note rf = run_finished [OF fetch fin]
  show ?thesis
  proof (cases "?P = []")
    case True
    with rf(3,4) have "state_file (snd (main E w0)) = state_file w0" by simp
    then have "loaded_last_ts (snd (main E w0)) = ?c" by (rule loaded_last_ts_same_file)
    with True show ?thesis by (simp add: passing_Nil_iff)
  next
    case False
    with rf(3,4) have "state_file (snd (main E w0)) = Some [(''last_timestamp'', last_ts l)]"
      by simp
    then have "loaded_last_ts (snd (main E w0)) = last_ts l" by (rule loaded_last_ts_saved)
    with rf(2) passing_last_bound [of ?c "sort_key timestamp_of rows"]
    show ?thesis by (auto simp: not_less)
  qed
qed

subsection \<open>The workout id\<close>

lemma of_char_digit_char: "d < 10 \<Longrightarrow> (of_char (digit_char d) :: nat) = 48 + d"
  by (simp add: digit_char_def)

lemma is_digit_digit_char: "d < 10 \<Longrightarrow> is_digit (digit_char d)"
  by (simp add: is_digit_def of_char_digit_char)

lemma digits_value_snoc:
  "digits_value (s @ [c]) = 10 * digits_value s + (of_char c - 48)"
  by (simp add: digits_value_def)

lemma dec_nat_digits: "list_all is_digit (dec_nat n)"
proof (induction n rule: dec_nat.induct)
  case (1 n)
  show ?case
  proof (cases "n < 10")
    case True
    then show ?thesis by (simp add: dec_nat.simps [of n] is_digit_digit_char)
  next
    case False
    with "1.IH" show ?thesis by (simp add: dec_nat.simps [of n] is_digit_digit_char)
  qed
qed

lemma digits_value_dec_nat: "digits_value (dec_nat n) = n"
proof (induction n rule: dec_nat.induct)
  case (1 n)
  show ?case
  proof (cases "n < 10")
    case True
    then show ?thesis
      using digits_value_snoc [of "[]" "digit_char n"]
      by (simp add: dec_nat.simps [of n] of_char_digit_char digits_value_def)
  next
    case False
    with "1.IH" show ?thesis
      by (simp add: dec_nat.simps [of n] digits_value_snoc of_char_digit_char)
  qed
qed

lemma dec_nat_length_pos: "0 < length (dec_nat n)"
  by (simp add: dec_nat.simps [of n])

lemma dec_nat_length_le3: "n < 1000 \<Longrightarrow> length (dec_nat n) \<le> 3"
  by (simp add: dec_nat.simps [of n] dec_nat.simps [of "n div 10"]
        dec_nat.simps [of "n div 10 div 10"])

lemma digits_value_zeros: "digits_value (replicate k CHR ''0'' @ s) = digits_value s"
proof -
  have "foldl (\<lambda>a c. 10 * a + (of_char c - 48)) (0::nat) (replicate k CHR ''0'') = 0"
    by (induction k) simp_all
  then show ?thesis by (simp add: digits_value_def)
qed

lemma fmt_03d_nonneg:
  assumes "0 \<le> n"
  shows "digits_value (fmt_03d n) = nat n" and "list_all is_digit (fmt_03d n)"
    and "3 \<le> length (fmt_03d n)" and "n < 1000 \<Longrightarrow> length (fmt_03d n) = 3"
proof -
  have f: "fmt_03d n = replicate (3 - length (dec_nat (nat n))) CHR ''0'' @ dec_nat (nat n)"
    using assms by (simp add: fmt_03d_def Let_def)
  show "digits_value (fmt_03d n) = nat n"
    unfolding f by (simp add: digits_value_zeros digits_value_dec_nat)
  show "list_all is_digit (fmt_03d n)"
    unfolding f using dec_nat_digits [of "nat n"]
    by (auto simp: list_all_iff is_digit_def)
  show "3 \<le> length (fmt_03d n)" unfolding f by simp
  show "length (fmt_03d n) = 3" if "n < 1000"
  proof -
    have "nat n < 1000" using that assms by simp
    from dec_nat_length_le3 [OF this] show ?thesis unfolding f by simp
  qed
qed

lemma serials_distinct: "distinct (map (\<lambda>i. fmt_03d (int i)) xs) \<longleftrightarrow> distinct xs"
proof -
  have "inj_on (\<lambda>i. fmt_03d (int i)) (set xs)"
  proof (rule inj_onI)
    fix i j assume "fmt_03d (int i) = fmt_03d (int j)"
    then have "digits_value (fmt_03d (int i)) = digits_value (fmt_03d (int j))" by simp
    then show "i = j" by (simp add: fmt_03d_nonneg(1))
  qed
  then show ?thesis by (simp add: distinct_map)
qed

lemma remove_dashes_date:
  "CHR ''-'' \<notin> set y \<union> set m \<union> set d \<Longrightarrow> remove_dashes (y @ ''-'' @ m @ ''-'' @ d) = y @ m @ d"
proof -
  assume "CHR ''-'' \<notin> set y \<union> set m \<union> set d"
  then have "filter (\<lambda>c. c \<noteq> CHR ''-'') y = y" "filter (\<lambda>c. c \<noteq> CHR ''-'') m = m"
    "filter (\<lambda>c. c \<noteq> CHR ''-'') d = d"
    by (auto simp: filter_id_conv)
  then show ?thesis by (simp add: remove_dashes_def)
qed

lemma make_workout_id_reply:
  "count_reply E (calls w) (workouts w) D = Inr c \<Longrightarrow>
     make_workout_id E (JStr D) w
       = (Inr (remove_dashes D @ ''-'' @ fmt_03d (c + 1)), w\<lparr>calls := Suc (calls w)\<rparr>)"
  by (simp add: get_workouts_count_for_date_def Let_def)

lemma allocate_sequentially_accurate:
  assumes acc: "count_reply E = (\<lambda>n. accurate_count)"
    and up: "\<forall>n req. post_reply E n req = None"
    and wk: "dict_get wk ''date'' = JStr D"
  shows "fst (allocate_sequentially E (JStr D) (JObj wk) N w)
           = Inr (map (\<lambda>i. remove_dashes D @ ''-'' @ fmt_03d (int i))
                    [Suc (recorded_for D w) ..< Suc (recorded_for D w) + N])"
proof (induction N arbitrary: w)
  case 0
  show ?case by simp
next
  case (Suc N)
  let ?k = "recorded_for D w"
  let ?id = "remove_dashes D @ ''-'' @ fmt_03d (int (Suc ?k))"
  let ?w1 = "w\<lparr>calls := Suc (calls w)\<rparr>"
  have "count_reply E (calls w) (workouts w) D = Inr (int ?k)"
    by (simp add: acc accurate_count_def recorded_for_def)
  from make_workout_id_reply [OF this]
  have a: "make_workout_id E (JStr D) w = (Inr ?id, ?w1)" by (simp add: add.commute)
  obtain w2 where b: "append_workout_row E ?id (JObj wk) ?w1 = (Inr (), w2)"
    and k2: "recorded_for D w2 = Suc ?k"
    using up wk by (simp add: post_def Let_def recorded_for_def)
  from Suc.IH [of w2] k2
  have ih: "fst (allocate_sequentially E (JStr D) (JObj wk) N w2)
           = Inr (map (\<lambda>i. remove_dashes D @ ''-'' @ fmt_03d (int i))
                    [Suc (Suc ?k) ..< Suc (Suc ?k) + N])" by simp
  obtain w3 where c: "allocate_sequentially E (JStr D) (JObj wk) N w2
           = (Inr (map (\<lambda>i. remove_dashes D @ ''-'' @ fmt_03d (int i))
                    [Suc (Suc ?k) ..< Suc (Suc ?k) + N]), w3)"
    using ih by (cases "allocate_sequentially E (JStr D) (JObj wk) N w2") auto
  have "[Suc ?k ..< Suc ?k + Suc N] = Suc ?k # [Suc (Suc ?k) ..< Suc (Suc ?k) + N]"
    by (simp add: upt_rec)
  with a b c show ?case by (simp del: fmt_03d_def)
qed

subsection \<open>The concrete runs, evaluated\<close>

lemma healthy_fetch: "fetch_reply (healthy_env rows) n limit = Inr rows"
  by (simp add: healthy_env_def)

lemma world0_fields:
  "state_file world0 = None" "state_writes world0 = 0" "parsed_logs world0 = []"
  "workouts world0 = []" "activities world0 = []" "stdout world0 = []" "calls world0 = 0"
  by (simp_all add: world0_def)


lemma two_loop:
  "main_loop (healthy_env [squat_entry, bench_entry]) world0
     = (Inr \<lparr>last_ts = ''2024-05-02T18:00:00+00:00'', processed_any = True,
            parsed_json = Some (dumps_plain squat_obj)\<rparr>,
        world0\<lparr>parsed_logs :=
                 [\<lparr>a_timestamp = ''2024-05-01T18:00:00+00:00'', a_user_id = ''7'',
                   a_raw_text = ''bench 60kg 8 reps'', a_parsed_json = dumps_plain bench_obj,
                   a_status = JStr ''ok''\<rparr>,
                  \<lparr>a_timestamp = ''2024-05-02T18:00:00+00:00'', a_user_id = ''7'',
                   a_raw_text = ''squat 100kg 5 reps'', a_parsed_json = dumps_plain squat_obj,
                   a_status = JStr ''ok''\<rparr>],
               stdout := [LoadingState, LastTs '''', ProcessingRow bench_entry,
                          ProcessingRow squat_entry],
               calls := 5\<rparr>)"
  by code_simp

lemma two_main:
  "main (healthy_env [squat_entry, bench_entry]) world0
     = (Inr (),
        world0\<lparr>state_file := Some [(''last_timestamp'', ''2024-05-02T18:00:00+00:00'')],
               state_writes := 1,
               parsed_logs :=
                 [\<lparr>a_timestamp = ''2024-05-01T18:00:00+00:00'', a_user_id = ''7'',
                   a_raw_text = ''bench 60kg 8 reps'', a_parsed_json = dumps_plain bench_obj,
                   a_status = JStr ''ok''\<rparr>,
                  \<lparr>a_timestamp = ''2024-05-02T18:00:00+00:00'', a_user_id = ''7'',
                   a_raw_text = ''squat 100kg 5 reps'', a_parsed_json = dumps_plain squat_obj,
                   a_status = JStr ''ok''\<rparr>],
               workouts :=
                 [\<lparr>w_workout_id = ''20240502-001'', w_date = JStr ''2024-05-02'',
                   w_type = JStr ''strength'', w_duration_min = JNull, w_location = JNull,
                   w_session_notes = JNull\<rparr>],
               activities :=
                 [\<lparr>r_workout_id = ''20240502-001'', r_date = JStr ''2024-05-02'',
                   r_exercise = JStr ''squat'', r_exercise_id = JNull, r_weight = JNum 100,
                   r_reps = JNum 5, r_rest_sec = JNull, r_hold_sec = JNull, r_notes = JNull,
                   r_set_number = JNull\<rparr>],
               stdout := [LoadingState, LastTs '''', ProcessingRow bench_entry,
                          ProcessingRow squat_entry, Done ''2024-05-02T18:00:00+00:00''],
               calls := 8\<rparr>)"
  apply (simp only: main_def two_loop prod.case sum.case)
  apply code_simp
  done

lemma bench_run_loop:
  "main_loop (healthy_env [bench_entry]) world0
     = (Inr \<lparr>last_ts = ''2024-05-01T18:00:00+00:00'', processed_any = True,
              parsed_json = Some (dumps_plain bench_obj)\<rparr>,
        world0\<lparr>parsed_logs :=
                 [\<lparr>a_timestamp = ''2024-05-01T18:00:00+00:00'', a_user_id = ''7'',
                   a_raw_text = ''bench 60kg 8 reps'', a_parsed_json = dumps_plain bench_obj,
                   a_status = JStr ''ok''\<rparr>],
               stdout := [LoadingState, LastTs '''', ProcessingRow bench_entry],
               calls := 3\<rparr>)"
  by code_simp

lemma swapped_run_loop:
  "fst (main_loop (healthy_env [bench_entry, squat_entry]) world0)
     = Inr \<lparr>last_ts = ''2024-05-02T18:00:00+00:00'', processed_any = True,
            parsed_json = Some (dumps_plain squat_obj)\<rparr>"
  by code_simp

lemma twin_run_loop:
  "main_loop (healthy_env [bench_entry, twin_entry]) world0
     = (Inr \<lparr>last_ts = ''2024-05-01T18:00:00+00:00'', processed_any = True,
              parsed_json = Some (dumps_plain bench_obj)\<rparr>,
        world0\<lparr>parsed_logs :=
                 [\<lparr>a_timestamp = ''2024-05-01T18:00:00+00:00'', a_user_id = ''7'',
                   a_raw_text = ''bench 60kg 8 reps'', a_parsed_json = dumps_plain bench_obj,
                   a_status = JStr ''ok''\<rparr>],
               stdout := [LoadingState, LastTs '''', ProcessingRow bench_entry,
                          ProcessingRow twin_entry],
               calls := 3\<rparr>)"
  by code_simp

lemma down_run_loop:
  "main_loop (down_env [bench_entry, squat_entry]) world0
     = (Inl (RequestError ''503 Server Error''),
        world0\<lparr>stdout := [LoadingState, LastTs '''', ProcessingRow bench_entry], calls := 4\<rparr>)"
  by code_simp

lemma vague_try_block:
  "try_block (healthy_env []) (timestamp_of vague_entry) (get_str vague_entry ''user_id'' '''')
     (get_str vague_entry ''raw_text'' '''')
     \<lparr>last_ts = '''', processed_any = False, parsed_json = None\<rparr>
     (print (ProcessingRow vague_entry) world0)
   = (Inl (JSONDecodeError ''Expecting value: line 1 column 1 (char 0)''),
      \<lparr>last_ts = '''', processed_any = False, parsed_json = None\<rparr>,
      world0\<lparr>stdout := [ProcessingRow vague_entry], calls := 1\<rparr>)"
  by code_simp

lemma twin_first: "first_per_timestamp [] (eligible_sorted (loaded_last_ts world0) [bench_entry, twin_entry])
   = [bench_entry]"
  by code_simp

lemma picky_bench_first_loop:
  "main_loop (picky_env [bench_entry, twin_entry]) world0
     = (Inr \<lparr>last_ts = ''2024-05-01T18:00:00+00:00'', processed_any = True,
              parsed_json = Some (dumps_plain bench_obj)\<rparr>,
        world0\<lparr>parsed_logs :=
                 [\<lparr>a_timestamp = ''2024-05-01T18:00:00+00:00'', a_user_id = ''7'',
                   a_raw_text = ''bench 60kg 8 reps'', a_parsed_json = dumps_plain bench_obj,
                   a_status = JStr ''ok''\<rparr>],
               stdout := [LoadingState, LastTs '''', ProcessingRow bench_entry,
                          ProcessingRow twin_entry],
               calls := 3\<rparr>)"
  by code_simp

lemma picky_twin_first_loop:
  "main_loop (picky_env [twin_entry, bench_entry]) world0
     = (Inl (RequestError ''400 Bad Request''),
        world0\<lparr>stdout := [LoadingState, LastTs '''', ProcessingRow twin_entry], calls := 4\<rparr>)"
  by code_simp

lemma flaky_loop:
  "main_loop (flaky_env [bench_entry, squat_entry]) world0
     = (Inl (RequestError ''503 Server Error''),
        world0\<lparr>parsed_logs :=
                 [\<lparr>a_timestamp = ''2024-05-01T18:00:00+00:00'', a_user_id = ''7'',
                   a_raw_text = ''bench 60kg 8 reps'', a_parsed_json = dumps_plain bench_obj,
                   a_status = JStr ''ok''\<rparr>],
               stdout := [LoadingState, LastTs '''', ProcessingRow bench_entry,
                          ProcessingRow squat_entry],
               calls := 6\<rparr>)"
  by code_simp

section \<open>The claims\<close>

text \<open>
  Claim C1. Every entry whose parse has status ok is to get its workout header and its
  activity rows. The code writes them after the loop, from the last value of
  \<^verbatim>\<open>parsed_json\<close>: in a run over two entries that both parse with status ok, both audit rows
  are written with that status, but the workouts sheet receives one header and the
  activities sheet one row, those of the later entry; nothing is written for the earlier one.
\<close>

theorem only_last_parse_gets_workout_rows:
  "(let w' = snd (main (healthy_env [squat_entry, bench_entry]) world0)
    in map a_raw_text (parsed_logs w') = [''bench 60kg 8 reps'', ''squat 100kg 5 reps'']
     \<and> map a_status (parsed_logs w') = [JStr ''ok'', JStr ''ok'']
     \<and> map w_workout_id (workouts w') = [''20240502-001'']
     \<and> map r_exercise (activities w') = [JStr ''squat''])"
  by (simp add: two_main world0_fields)

text \<open>
  Claim C2. With an empty fetch result the run writes nothing, leaves the checkpoint file
  alone and prints that nothing is new, as the claim says; but it does not end normally.
  Line 207 reads \<^verbatim>\<open>parsed_json\<close>, which no iteration has bound, and the run ends with
  an \<^verbatim>\<open>UnboundLocalError\<close>. The world it leaves differs from the initial one only in the
  three lines printed and the one call made (the fetch).
\<close>

theorem empty_fetch_run_raises:
  "main (healthy_env []) world0 =
     (Inl (UnboundLocalError
             (''cannot access local variable '' @ [CHR 0x27] @ ''parsed_json'' @ [CHR 0x27]
               @ '' where it is not associated with a value'')),
      world0\<lparr>stdout := [LoadingState, LastTs '''', NothingNew], calls := 1\<rparr>)"
  by code_simp

text \<open>
  Claim C3, as the code has it. In a run whose loop reaches its end, with \<open>c\<close> the loaded
  \<^verbatim>\<open>last_timestamp\<close>: every audit row written belongs to a fetched entry whose timestamp
  strictly exceeds \<open>c\<close>; every timestamp above \<open>c\<close> that occurs in the batch gets exactly one
  audit row (so not every entry above \<open>c\<close> is handled: one per timestamp is); with the empty
  checkpoint this holds for every non-empty timestamp; and a second run started in the world
  the first one left, on a batch with no new entries, writes no audit row.
\<close>

theorem handled_against_loaded_checkpoint:
  assumes fetch: "fetch_reply E (calls w0) 100 = Inr rows"
    and fin: "fst (main_loop E w0) = Inr l"
  shows "(let c = loaded_last_ts w0; w' = snd (main E w0); new = audit_rows_written w0 w'
          in (\<forall>a \<in> set new. c < a_timestamp a \<and> (\<exists>r \<in> set rows. row_key a = entry_key r))
           \<and> (\<forall>r \<in> set rows. c < timestamp_of r \<longrightarrow>
                 length (filter (\<lambda>a. a_timestamp a = timestamp_of r) new) = 1)
           \<and> (c = '''' \<longrightarrow> (\<forall>r \<in> set rows. timestamp_of r \<noteq> '''' \<longrightarrow>
                 length (filter (\<lambda>a. a_timestamp a = timestamp_of r) new) = 1))
           \<and> (\<forall>(E2 :: env) rows2. fetch_reply E2 (calls w') 100 = Inr rows2 \<and> set rows2 \<subseteq> set rows
                 \<longrightarrow> audit_rows_written w' (snd (main E2 w')) = []))"
proof -
  let ?c = "loaded_last_ts w0"
  let ?w' = "snd (main E w0)"
  let ?new = "audit_rows_written w0 ?w'"
  let ?P = "passing ?c (sort_key timestamp_of rows)"
  note rf = run_finished [OF fetch fin]
  have ts: "map a_timestamp ?new = map timestamp_of ?P" using rf(1) by (rule timestamps_of_keys)
  have a: "\<forall>a \<in> set ?new. ?c < a_timestamp a \<and> (\<exists>r \<in> set rows. row_key a = entry_key r)"
  proof
    fix a assume "a \<in> set ?new"
    then have "row_key a \<in> set (map entry_key ?P)" using rf(1) by (metis imageI set_map)
    then obtain r where r: "r \<in> set ?P" "row_key a = entry_key r" by auto
    from r(1) passing_subset [of ?c "sort_key timestamp_of rows"] have "r \<in> set rows" by auto
    moreover from r(2) have "a_timestamp a = timestamp_of r" by (simp add: row_key_def entry_key_def)
    moreover note passing_above [OF r(1)] r(2)
    ultimately show "?c < a_timestamp a \<and> (\<exists>r \<in> set rows. row_key a = entry_key r)" by auto
  qed
  have b: "\<forall>r \<in> set rows. ?c < timestamp_of r \<longrightarrow>
                 length (filter (\<lambda>a. a_timestamp a = timestamp_of r) ?new) = 1"
  proof (intro ballI impI)
    fix r assume r: "r \<in> set rows" "?c < timestamp_of r"
    have "set (map timestamp_of ?P) = {t \<in> set (map timestamp_of (sort_key timestamp_of rows)). ?c < t}"
      by (rule passing_timestamps_sorted) simp
    with r have mem: "timestamp_of r \<in> set (map a_timestamp ?new)" unfolding ts by auto
    have "sorted_wrt (<) (map a_timestamp ?new)"
      unfolding ts using passing_ascending [of ?c "sort_key timestamp_of rows"] by simp
    then have "distinct (map a_timestamp ?new)" by (simp add: strict_sorted_iff)
    from distinct_count_one [OF this mem]
    show "length (filter (\<lambda>a. a_timestamp a = timestamp_of r) ?new) = 1"
      by (simp add: filter_map comp_def)
  qed
  have c: "?c = '''' \<longrightarrow> (\<forall>r \<in> set rows. timestamp_of r \<noteq> '''' \<longrightarrow>
                 length (filter (\<lambda>a. a_timestamp a = timestamp_of r) ?new) = 1)"
  proof (intro impI ballI)
    fix r assume "?c = ''''" "r \<in> set rows" "timestamp_of r \<noteq> ''''"
    moreover then have "?c < timestamp_of r" by (cases "timestamp_of r") auto
    ultimately show "length (filter (\<lambda>a. a_timestamp a = timestamp_of r) ?new) = 1"
      using b by blast
  qed
  have d: "\<forall>(E2 :: env) rows2. fetch_reply E2 (calls ?w') 100 = Inr rows2 \<and> set rows2 \<subseteq> set rows
                 \<longrightarrow> audit_rows_written ?w' (snd (main E2 ?w')) = []"
  proof (intro allI impI)
    fix E2 :: env and rows2 assume h: "fetch_reply E2 (calls ?w') 100 = Inr rows2 \<and> set rows2 \<subseteq> set rows"
    with after_finished_run_nothing_eligible [OF fetch fin]
    have "\<forall>r \<in> set rows2. \<not> loaded_last_ts ?w' < timestamp_of r" by auto
    with h show "audit_rows_written ?w' (snd (main E2 ?w')) = []"
      by (intro nothing_eligible_nothing_written) auto
  qed
  from a b c d show ?thesis unfolding Let_def by blast
qed

text \<open>
  The theorem at the two entries of the healthy store: a second run on the same batch
  handles nothing.
\<close>

theorem handled_against_loaded_checkpoint_witness:
  "audit_rows_written (snd (main (healthy_env [squat_entry, bench_entry]) world0))
     (snd (main (healthy_env [squat_entry, bench_entry])
        (snd (main (healthy_env [squat_entry, bench_entry]) world0)))) = []"
proof -
  have fin: "fst (main_loop (healthy_env [squat_entry, bench_entry]) world0)
     = Inr \<lparr>last_ts = ''2024-05-02T18:00:00+00:00'', processed_any = True,
            parsed_json = Some (dumps_plain squat_obj)\<rparr>"
    by (simp add: two_loop)
  from handled_against_loaded_checkpoint [OF healthy_fetch fin]
  have "\<forall>(E2 :: env) rows2.
          fetch_reply E2 (calls (snd (main (healthy_env [squat_entry, bench_entry]) world0))) 100
            = Inr rows2 \<and> set rows2 \<subseteq> set [squat_entry, bench_entry]
          \<longrightarrow> audit_rows_written (snd (main (healthy_env [squat_entry, bench_entry]) world0))
                (snd (main E2 (snd (main (healthy_env [squat_entry, bench_entry]) world0)))) = []"
    unfolding Let_def by blast
  then show ?thesis using healthy_fetch by blast
qed

text \<open>
  Claim C3 as stated fails where two entries share a timestamp: with the empty checkpoint
  and the batch of \<^const>\<open>bench_entry\<close> and \<^const>\<open>twin_entry\<close>, the timestamp of the second
  exceeds the checkpoint, yet the only audit row of the run is the one of the first.
\<close>

theorem second_entry_of_equal_timestamp_not_handled:
  "loaded_last_ts world0 < timestamp_of twin_entry
   \<and> fetch_reply (healthy_env [bench_entry, twin_entry]) (calls world0) 100
       = Inr [bench_entry, twin_entry]
   \<and> map a_raw_text (audit_rows_written world0
        (snd (main (healthy_env [bench_entry, twin_entry]) world0))) = [''bench 60kg 8 reps'']"
proof -
  have a: "loaded_last_ts world0 < timestamp_of twin_entry" by code_simp
  have c: "parsed_logs (snd (main (healthy_env [bench_entry, twin_entry]) world0))
            = [\<lparr>a_timestamp = ''2024-05-01T18:00:00+00:00'', a_user_id = ''7'',
                   a_raw_text = ''bench 60kg 8 reps'', a_parsed_json = dumps_plain bench_obj,
                   a_status = JStr ''ok''\<rparr>]"
    using main_after_loop(1) [OF twin_run_loop] by (simp add: world0_fields)
  from a c show ?thesis by (simp add: healthy_fetch audit_rows_written_def world0_fields)
qed

text \<open>
  Claim C4, as the code has it. The timestamps of the entries a run handles are strictly
  ascending, whatever the run does. They are a prefix of a list that depends only on the
  loaded checkpoint and on the entries of the batch as a multiset, and are that list when
  the loop reaches its end: two runs from the same checkpoint on two orderings of the same
  batch, both reaching the end of the loop, handle the same timestamps in the same order.
\<close>

theorem handled_ascending_whatever_fetch_order:
  assumes "fetch_reply E (calls w0) 100 = Inr rows"
    and "fetch_reply E' (calls w0') 100 = Inr rows'"
    and "mset rows' = mset rows"
    and "loaded_last_ts w0' = loaded_last_ts w0"
  shows "sorted_wrt (<) (handled_timestamps E w0)
       \<and> sorted_wrt (<) (handled_timestamps E' w0')
       \<and> prefix (handled_timestamps E w0)
            (map timestamp_of (passing (loaded_last_ts w0) (sort_key timestamp_of rows)))
       \<and> prefix (handled_timestamps E' w0')
            (map timestamp_of (passing (loaded_last_ts w0) (sort_key timestamp_of rows)))
       \<and> (\<forall>l l'. fst (main_loop E w0) = Inr l \<and> fst (main_loop E' w0') = Inr l'
             \<longrightarrow> handled_timestamps E' w0' = handled_timestamps E w0)"
proof -
  have perm: "map timestamp_of (passing (loaded_last_ts w0) (sort_key timestamp_of rows'))
            = map timestamp_of (passing (loaded_last_ts w0) (sort_key timestamp_of rows))"
    using assms(3) by (rule passing_permutation)
  have p1: "prefix (handled_timestamps E w0)
            (map timestamp_of (passing (loaded_last_ts w0) (sort_key timestamp_of rows)))"
    using assms(1) by (rule handled_timestamps_prefix)
  have p2: "prefix (handled_timestamps E' w0')
            (map timestamp_of (passing (loaded_last_ts w0) (sort_key timestamp_of rows)))"
    using handled_timestamps_prefix [OF assms(2)] perm assms(4) by simp
  have eq: "\<forall>l l'. fst (main_loop E w0) = Inr l \<and> fst (main_loop E' w0') = Inr l'
             \<longrightarrow> handled_timestamps E' w0' = handled_timestamps E w0"
    using handled_timestamps_finished [OF assms(1)] handled_timestamps_finished [OF assms(2)]
      perm assms(4) by simp
  from handled_timestamps_ascending [of E w0] handled_timestamps_ascending [of E' w0'] p1 p2 eq
  show ?thesis by blast
qed

text \<open>
  The theorem at the two orderings of a batch of two entries.
\<close>

theorem handled_ascending_whatever_fetch_order_witness:
  "handled_timestamps (healthy_env [bench_entry, squat_entry]) world0
     = handled_timestamps (healthy_env [squat_entry, bench_entry]) world0
   \<and> sorted_wrt (<) (handled_timestamps (healthy_env [squat_entry, bench_entry]) world0)"
proof -
  have fin: "fst (main_loop (healthy_env [squat_entry, bench_entry]) world0)
     = Inr \<lparr>last_ts = ''2024-05-02T18:00:00+00:00'', processed_any = True,
            parsed_json = Some (dumps_plain squat_obj)\<rparr>"
    by (simp add: two_loop)
  have ms: "mset [bench_entry, squat_entry] = mset [squat_entry, bench_entry]" by simp
  from handled_ascending_whatever_fetch_order [OF healthy_fetch healthy_fetch ms refl]
    fin swapped_run_loop
  show ?thesis by blast
qed

text \<open>
  Claim C4 as stated fails when the order of the batch decides whether an exception leaves
  the loop. \<^const>\<open>bench_entry\<close> and \<^const>\<open>twin_entry\<close> share a timestamp, and the store
  rejects the audit rows of the user of \<^const>\<open>twin_entry\<close>. Fetched with the bench entry
  first, the run handles the bench entry and skips the other; fetched with the twin entry
  first, both POSTs for it fail, the second one inside the \<^verbatim>\<open>except\<close> body, and the run
  ends having handled nothing.
\<close>

theorem fetch_order_decides_which_run_aborts:
  "mset [twin_entry, bench_entry] = mset [bench_entry, twin_entry]
   \<and> loaded_last_ts world0 = loaded_last_ts world0
   \<and> handled_timestamps (picky_env [bench_entry, twin_entry]) world0
       = [''2024-05-01T18:00:00+00:00'']
   \<and> handled_timestamps (picky_env [twin_entry, bench_entry]) world0 = []"
proof -
  have a: "parsed_logs (snd (main (picky_env [bench_entry, twin_entry]) world0))
            = [\<lparr>a_timestamp = ''2024-05-01T18:00:00+00:00'', a_user_id = ''7'',
                   a_raw_text = ''bench 60kg 8 reps'', a_parsed_json = dumps_plain bench_obj,
                   a_status = JStr ''ok''\<rparr>]"
    using main_after_loop(1) [OF picky_bench_first_loop] by (simp add: world0_fields)
  have b: "parsed_logs (snd (main (picky_env [twin_entry, bench_entry]) world0)) = []"
    using main_aborted_in_loop [OF picky_twin_first_loop] by (simp add: world0_fields)
  from a b show ?thesis
    by (simp add: handled_timestamps_def audit_rows_written_def world0_fields)
qed

text \<open>
  Claim C5. When the store reports the count \<open>c\<close> for the date \<open>D\<close>, \<^verbatim>\<open>make_workout_id\<close>
  returns \<open>D\<close> without its dashes, a hyphen and the serial of \<open>c + 1\<close>. For a date of the
  form year, dash, month, dash, day the first part is the three fields joined. The serial of
  a number that is not negative consists of decimal digits that denote the number, at least
  three of them, and exactly three below 1000. Allocating \<open>N\<close> ids in a row against a store
  that counts accurately, each workout recorded before the next id is allocated, gives the
  serials of \<open>1\<close> to \<open>N\<close>, which are distinct.
\<close>

theorem next_id_serial:
  "(\<forall>c. count_reply E (calls w) (workouts w) D = Inr c \<longrightarrow>
      fst (make_workout_id E (JStr D) w) = Inr (remove_dashes D @ ''-'' @ fmt_03d (c + 1)))
   \<and> (\<forall>y m d. D = y @ ''-'' @ m @ ''-'' @ d \<and> CHR ''-'' \<notin> set y \<union> set m \<union> set d \<longrightarrow>
        remove_dashes D = y @ m @ d)
   \<and> (\<forall>c. 0 \<le> c \<longrightarrow>
        int (digits_value (fmt_03d (c + 1))) = c + 1 \<and> list_all is_digit (fmt_03d (c + 1))
        \<and> 3 \<le> length (fmt_03d (c + 1)) \<and> (c < 999 \<longrightarrow> length (fmt_03d (c + 1)) = 3))
   \<and> (count_reply E = (\<lambda>n. accurate_count) \<and> (\<forall>n req. post_reply E n req = None)
        \<and> dict_get wk ''date'' = JStr D \<and> recorded_for D w = 0 \<longrightarrow>
        fst (allocate_sequentially E (JStr D) (JObj wk) N w)
          = Inr (map (\<lambda>i. remove_dashes D @ ''-'' @ fmt_03d (int i)) [1 ..< Suc N])
        \<and> distinct (map (\<lambda>i. fmt_03d (int i)) [1 ..< Suc N]))"
proof -
  have a: "\<forall>c. count_reply E (calls w) (workouts w) D = Inr c \<longrightarrow>
      fst (make_workout_id E (JStr D) w) = Inr (remove_dashes D @ ''-'' @ fmt_03d (c + 1))"
    using make_workout_id_reply [of E w D] by simp
  have b: "\<forall>y m d. D = y @ ''-'' @ m @ ''-'' @ d \<and> CHR ''-'' \<notin> set y \<union> set m \<union> set d \<longrightarrow>
        remove_dashes D = y @ m @ d"
    using remove_dashes_date by blast
  have c: "\<forall>c. 0 \<le> c \<longrightarrow>
        int (digits_value (fmt_03d (c + 1))) = c + 1 \<and> list_all is_digit (fmt_03d (c + 1))
        \<and> 3 \<le> length (fmt_03d (c + 1)) \<and> (c < 999 \<longrightarrow> length (fmt_03d (c + 1)) = 3)"
  proof (intro allI impI)
    fix c :: int assume "0 \<le> c"
    then have "0 \<le> c + 1" by simp
    from fmt_03d_nonneg [OF this] \<open>0 \<le> c\<close>
    show "int (digits_value (fmt_03d (c + 1))) = c + 1 \<and> list_all is_digit (fmt_03d (c + 1))
        \<and> 3 \<le> length (fmt_03d (c + 1)) \<and> (c < 999 \<longrightarrow> length (fmt_03d (c + 1)) = 3)"
      by simp
  qed
  have d: "count_reply E = (\<lambda>n. accurate_count) \<and> (\<forall>n req. post_reply E n req = None)
        \<and> dict_get wk ''date'' = JStr D \<and> recorded_for D w = 0 \<longrightarrow>
        fst (allocate_sequentially E (JStr D) (JObj wk) N w)
          = Inr (map (\<lambda>i. remove_dashes D @ ''-'' @ fmt_03d (int i)) [1 ..< Suc N])
        \<and> distinct (map (\<lambda>i. fmt_03d (int i)) [1 ..< Suc N])"
    using allocate_sequentially_accurate [of E wk D N w] by (simp add: serials_distinct)
  from a b c d show ?thesis by blast
qed

text \<open>
  The theorem at three allocations for one date against the healthy store.
\<close>

theorem next_id_serial_witness:
  "fst (allocate_sequentially (healthy_env []) (JStr ''2024-05-01'')
          (JObj [(''date'', JStr ''2024-05-01''), (''type'', JStr ''strength'')]) 3 world0)
     = Inr [''20240501-001'', ''20240501-002'', ''20240501-003'']"
proof -
  have h: "count_reply (healthy_env []) = (\<lambda>n. accurate_count)
        \<and> (\<forall>n req. post_reply (healthy_env []) n req = None)
        \<and> dict_get [(''date'', JStr ''2024-05-01''), (''type'', JStr ''strength'')] ''date''
            = JStr ''2024-05-01''
        \<and> recorded_for ''2024-05-01'' world0 = 0"
    by (simp add: healthy_env_def dict_get_def recorded_for_def world0_fields)
  have m: "map (\<lambda>i. remove_dashes ''2024-05-01'' @ ''-'' @ fmt_03d (int i)) [1 ..< Suc 3]
             = [''20240501-001'', ''20240501-002'', ''20240501-003'']"
    by code_simp
  from next_id_serial [of "healthy_env []" world0 "''2024-05-01''"
      "[(''date'', JStr ''2024-05-01''), (''type'', JStr ''strength'')]" 3] h m
  show ?thesis by simp
qed

text \<open>
  Claim C6, as the code has it. When the stripped text of the response parses as a JSON
  object, \<^verbatim>\<open>parse_with_llm\<close> returns the serialization of the object with the value of its
  \<^verbatim>\<open>status\<close> key, and with \<^verbatim>\<open>needs_review\<close>, which is not \<^verbatim>\<open>ok\<close>, when the key is absent.
  When the text does not parse, the call raises the \<^verbatim>\<open>JSONDecodeError\<close>. In both cases
  exactly one call has been made to the model: nothing is repaired or tried again.
\<close>

theorem parse_returns_text_and_status:
  assumes "llm_reply E (calls w) (llm_input raw_text default_date_iso) = Inr output_text"
  shows "(\<forall>d. json_loads E (strip output_text) = Inr (JObj d) \<longrightarrow>
            parse_with_llm E raw_text default_date_iso w
              = (Inr (json_dumps E (JObj d),
                      (case map_of d ''status'' of None \<Rightarrow> JStr ''needs_review'' | Some s \<Rightarrow> s)),
                 w\<lparr>calls := Suc (calls w)\<rparr>))
       \<and> (\<forall>d. json_loads E (strip output_text) = Inr (JObj d) \<and> map_of d ''status'' = None \<longrightarrow>
            fst (parse_with_llm E raw_text default_date_iso w)
              = Inr (json_dumps E (JObj d), JStr ''needs_review'')
            \<and> JStr ''needs_review'' \<noteq> JStr ''ok'')
       \<and> (\<forall>m. json_loads E (strip output_text) = Inl m \<longrightarrow>
            parse_with_llm E raw_text default_date_iso w
              = (Inl (JSONDecodeError m), w\<lparr>calls := Suc (calls w)\<rparr>))"
  using assms by (simp add: parse_with_llm_def Let_def)

text \<open>
  The theorem at the response of the model to the bench entry.
\<close>

theorem parse_returns_text_and_status_witness:
  "parse_with_llm (healthy_env []) ''bench 60kg 8 reps'' ''2024-05-03'' world0
     = (Inr (dumps_plain bench_obj, JStr ''ok''), world0\<lparr>calls := 1\<rparr>)"
proof -
  have reply: "llm_reply (healthy_env []) (calls world0) (llm_input ''bench 60kg 8 reps'' ''2024-05-03'')
                 = Inr (dumps_plain bench_obj)"
    by code_simp
  have loads: "json_loads (healthy_env []) (strip (dumps_plain bench_obj))
     = Inr (JObj [(''workout'', JObj [(''date'', JStr ''2024-05-01''), (''type'', JStr ''strength'')]),
           (''activities'', JArr [JObj [(''exercise'', JStr ''bench''), (''weight'', JNum 60),
                                        (''reps'', JNum 8)]]),
           (''status'', JStr ''ok''), (''questions'', JArr [])])"
    by code_simp
  from parse_returns_text_and_status [OF reply] loads
  show ?thesis by (simp add: healthy_env_def bench_obj_def world0_def)
qed

text \<open>
  Claim C6 as stated fails for a text that parses as JSON without being an object: on the
  text of an empty array \<^verbatim>\<open>json.loads\<close> succeeds and \<^verbatim>\<open>obj.get\<close> raises an
  \<^verbatim>\<open>AttributeError\<close>, so that the call returns neither a text nor a status.
\<close>

theorem parse_of_json_array_raises:
  "json_loads array_env (strip (''[]'' @ [CHR 0x0A])) = Inr (JArr [])
   \<and> llm_reply array_env (calls world0) (llm_input ''did something today'' ''2024-05-03'')
       = Inr (''[]'' @ [CHR 0x0A])
   \<and> fst (parse_with_llm array_env ''did something today'' ''2024-05-03'' world0)
       = Inl (AttributeError ([CHR 0x27] @ ''list'' @ [CHR 0x27] @ '' object has no attribute ''
                               @ [CHR 0x27] @ ''get'' @ [CHR 0x27]))"
  by code_simp

text \<open>
  Claim C7, as the code has it. For an entry that is eligible, when the parse or the
  write of its audit row raises \<open>e\<close>, the driver posts an audit row with status \<^verbatim>\<open>error\<close>
  and the serialized message of \<open>e\<close>. When that POST succeeds, this row is the one audit
  row of the entry, the checkpoint candidate becomes the timestamp of the entry, and the
  loop goes on with the next entry.
\<close>

theorem failure_logged_as_error_row:
  assumes elig: "last_ts l < timestamp_of r"
    and fail: "try_block E (timestamp_of r) (get_str r ''user_id'' '''') (get_str r ''raw_text'' '''')
                 l (print (ProcessingRow r) w) = (Inl e, l1, w1)"
    and logged: "post_reply E (calls w1) (AppendParsed (error_row E r e)) = None"
  shows "(let l' = l1\<lparr>last_ts := timestamp_of r, processed_any := True\<rparr>;
              w' = store_append (AppendParsed (error_row E r e)) (w1\<lparr>calls := Suc (calls w1)\<rparr>)
          in process_row E r l w = (Inr l', w')
           \<and> parsed_logs w' = parsed_logs w @ [error_row E r e]
           \<and> last_ts l' = timestamp_of r
           \<and> (\<forall>rs. loop E (r # rs) l w = loop E rs l' w'))"
proof -
  let ?l' = "l1\<lparr>last_ts := timestamp_of r, processed_any := True\<rparr>"
  let ?w' = "store_append (AppendParsed (error_row E r e)) (w1\<lparr>calls := Suc (calls w1)\<rparr>)"
  have g: "timestamp_of r \<noteq> ''''" "\<not> (last_ts l \<noteq> '''' \<and> timestamp_of r \<le> last_ts l)"
    using eligible_iff [of "timestamp_of r" "last_ts l"] elig by auto
  have eb: "except_block E (timestamp_of r) (get_str r ''user_id'' '''') (get_str r ''raw_text'' '''') e w1
              = (Inr (), ?w')"
    using logged by (simp add: except_block_def append_parsed_def post_def error_row_def Let_def)
  have pr: "process_row E r l w = (Inr ?l', ?w')"
    using g fail eb by (auto simp: process_row_def Let_def)
  have "parsed_logs w1 = parsed_logs w" using try_block_Inl [OF fail] by (simp add: print_def)
  then have pl: "parsed_logs ?w' = parsed_logs w @ [error_row E r e]" by simp
  have lp: "\<forall>rs. loop E (r # rs) l w = loop E rs ?l' ?w'" using pr by simp
  from pr pl lp show ?thesis unfolding Let_def by simp
qed

text \<open>
  The theorem at an entry that the model answers with a text that is not JSON.
\<close>

theorem failure_logged_as_error_row_witness:
  "parsed_logs (snd (process_row (healthy_env []) vague_entry
       \<lparr>last_ts = '''', processed_any = False, parsed_json = None\<rparr> world0))
     = [error_row (healthy_env []) vague_entry
          (JSONDecodeError ''Expecting value: line 1 column 1 (char 0)'')]"
proof -
  have elig: "last_ts \<lparr>last_ts = '''', processed_any = False, parsed_json = None\<rparr>
                < timestamp_of vague_entry"
    by code_simp
  have logged: "post_reply (healthy_env [])
      (calls (world0\<lparr>stdout := [ProcessingRow vague_entry], calls := 1\<rparr>))
      (AppendParsed (error_row (healthy_env []) vague_entry
          (JSONDecodeError ''Expecting value: line 1 column 1 (char 0)''))) = None"
    by (simp add: healthy_env_def)
  from failure_logged_as_error_row [OF elig vague_try_block logged]
  show ?thesis by (simp add: Let_def world0_fields)
qed

text \<open>
  Claim C7 as stated fails when the POST of the error row raises too: that exception is
  raised inside the \<^verbatim>\<open>except\<close> body and nothing catches it. With a store that rejects every
  POST, the run over two entries ends with the exception at the first entry: no audit row
  is written, the second entry is never reached and the checkpoint is not saved.
\<close>

theorem failed_error_write_aborts_run:
  "main (down_env [bench_entry, squat_entry]) world0
     = (Inl (RequestError ''503 Server Error''),
        world0\<lparr>stdout := [LoadingState, LastTs '''', ProcessingRow bench_entry], calls := 4\<rparr>)"
  using down_run_loop by (rule main_aborted_in_loop)

text \<open>
  Claim C8, as the code has it. In a run whose loop reaches its end, the checkpoint file is
  written (once) if and only if the run handled an entry, and it then holds the timestamp
  of the last entry handled, which is the value of the candidate \<^verbatim>\<open>last_ts\<close> at the end of
  the loop; otherwise the file is what it was. Every iteration that handles an entry sets the candidate to the
  timestamp of that entry.
\<close>

theorem checkpoint_saved_iff_entry_handled:
  assumes "fst (main_loop E w0) = Inr l"
  shows "(let w' = snd (main E w0); new = audit_rows_written w0 w'
          in state_writes w' = (if new = [] then state_writes w0 else Suc (state_writes w0))
           \<and> state_file w' = (if new = [] then state_file w0
                               else Some [(''last_timestamp'', a_timestamp (last new))])
           \<and> last_ts l = (if new = [] then loaded_last_ts w0 else a_timestamp (last new)))
         \<and> (\<forall>r l1 w1 l2 w2. last_ts l1 < timestamp_of r \<and> process_row E r l1 w1 = (Inr l2, w2)
               \<longrightarrow> last_ts l2 = timestamp_of r)"
proof -
  obtain rows where fetch: "fetch_reply E (calls w0) 100 = Inr rows"
    using assms by (rule finished_fetched)
  let ?P = "passing (loaded_last_ts w0) (sort_key timestamp_of rows)"
  let ?new = "audit_rows_written w0 (snd (main E w0))"
  note rf = run_finished [OF fetch assms]
  have ts: "map a_timestamp ?new = map timestamp_of ?P" using rf(1) by (rule timestamps_of_keys)
  then have "length ?new = length ?P" by (metis length_map)
  then have e: "?new = [] \<longleftrightarrow> ?P = []" by auto
  have lastnew: "a_timestamp (last ?new) = last (map timestamp_of ?P)" if "?new \<noteq> []"
    using that ts by (metis last_map)
  have lts: "last_ts l = (if ?new = [] then loaded_last_ts w0 else a_timestamp (last ?new))"
    using rf(2) e lastnew by auto
  have "state_writes (snd (main E w0)) = (if ?new = [] then state_writes w0 else Suc (state_writes w0))"
    using rf(5) rf(3) e by simp
  moreover have "state_file (snd (main E w0)) = (if ?new = [] then state_file w0
                               else Some [(''last_timestamp'', a_timestamp (last ?new))])"
    using rf(4) rf(3) e lts by simp
  moreover have "\<forall>r l1 w1 l2 w2. last_ts l1 < timestamp_of r \<and> process_row E r l1 w1 = (Inr l2, w2)
               \<longrightarrow> last_ts l2 = timestamp_of r"
    using process_row_handled(2) by blast
  ultimately show ?thesis using lts by (simp add: Let_def)
qed

text \<open>
  The theorem at the run over the bench entry.
\<close>

theorem checkpoint_saved_iff_entry_handled_witness:
  "state_file (snd (main (healthy_env [bench_entry]) world0))
     = Some [(''last_timestamp'', ''2024-05-01T18:00:00+00:00'')]
   \<and> state_writes (snd (main (healthy_env [bench_entry]) world0)) = 1"
proof -
  have fin: "fst (main_loop (healthy_env [bench_entry]) world0)
     = Inr \<lparr>last_ts = ''2024-05-01T18:00:00+00:00'', processed_any = True,
            parsed_json = Some (dumps_plain bench_obj)\<rparr>"
    by (simp add: bench_run_loop)
  have new: "audit_rows_written world0 (snd (main (healthy_env [bench_entry]) world0))
     = [\<lparr>a_timestamp = ''2024-05-01T18:00:00+00:00'', a_user_id = ''7'',
                   a_raw_text = ''bench 60kg 8 reps'', a_parsed_json = dumps_plain bench_obj,
                   a_status = JStr ''ok''\<rparr>]"
    using main_after_loop(1) [OF bench_run_loop]
    by (simp add: audit_rows_written_def world0_fields)
  from checkpoint_saved_iff_entry_handled [OF fin] new
  show ?thesis by (simp add: Let_def world0_fields)
qed

text \<open>
  Claim C8 as stated fails for a run that an exception ends inside the loop. With a store
  that goes down after the audit row of the first entry, that entry is handled, the POSTs
  for the second entry fail, the second one inside the \<^verbatim>\<open>except\<close> body, and the run ends
  before line 200: an entry was handled and the checkpoint file is not written.
\<close>

theorem handled_entry_without_saved_checkpoint:
  "main (flaky_env [bench_entry, squat_entry]) world0
     = (Inl (RequestError ''503 Server Error''),
        world0\<lparr>parsed_logs :=
                 [\<lparr>a_timestamp = ''2024-05-01T18:00:00+00:00'', a_user_id = ''7'',
                   a_raw_text = ''bench 60kg 8 reps'', a_parsed_json = dumps_plain bench_obj,
                   a_status = JStr ''ok''\<rparr>],
               stdout := [LoadingState, LastTs '''', ProcessingRow bench_entry,
                          ProcessingRow squat_entry],
               calls := 6\<rparr>)
   \<and> audit_rows_written world0 (snd (main (flaky_env [bench_entry, squat_entry]) world0)) \<noteq> []
   \<and> state_writes (snd (main (flaky_env [bench_entry, squat_entry]) world0)) = state_writes world0
   \<and> state_file (snd (main (flaky_env [bench_entry, squat_entry]) world0)) = None"
  using main_aborted_in_loop [OF flaky_loop]
  by (simp add: audit_rows_written_def world0_fields)

text \<open>
  Claim C9. Take the eligible entries of the batch (timestamp above the loaded checkpoint)
  in sorted order and keep, of each timestamp, the first entry. The audit rows of a run are
  rows of these entries, in this order, one each and with distinct timestamps; they are a
  prefix of them in every run and all of them when the loop reaches its end, and the
  candidate is then the timestamp of the last one. An entry whose timestamp equals the
  candidate is skipped: the iteration prints the row and changes nothing else.
\<close>

theorem equal_timestamps_only_first_handled:
  assumes "fetch_reply E (calls w0) 100 = Inr rows"
  shows "(let firsts = first_per_timestamp [] (eligible_sorted (loaded_last_ts w0) rows);
              new = audit_rows_written w0 (snd (main E w0))
          in prefix (map row_key new) (map entry_key firsts)
           \<and> distinct (map a_timestamp new)
           \<and> (\<forall>l. fst (main_loop E w0) = Inr l \<longrightarrow>
                 map row_key new = map entry_key firsts
                 \<and> last_ts l = last (loaded_last_ts w0 # map timestamp_of firsts)))
         \<and> (\<forall>r l w. timestamp_of r = last_ts l \<longrightarrow>
               process_row E r l w = (Inr l, print (ProcessingRow r) w))"
proof -
  let ?c = "loaded_last_ts w0"
  let ?P = "passing ?c (sort_key timestamp_of rows)"
  let ?new = "audit_rows_written w0 (snd (main E w0))"
  have P: "?P = first_per_timestamp [] (eligible_sorted ?c rows)"
    unfolding eligible_sorted_def by (rule passing_first_per_timestamp) simp
  have a: "prefix (map row_key ?new) (map entry_key ?P)"
    using assms by (rule handled_keys_prefix)
  have "sorted_wrt (<) (map a_timestamp ?new)"
    using handled_timestamps_ascending [of E w0] by (simp add: handled_timestamps_def)
  then have b: "distinct (map a_timestamp ?new)" by (simp add: strict_sorted_iff)
  have c: "\<forall>l. fst (main_loop E w0) = Inr l \<longrightarrow>
             map row_key ?new = map entry_key ?P
             \<and> last_ts l = last (?c # map timestamp_of ?P)"
    using run_finished(1,2) [OF assms] by blast
  have d: "\<forall>r l w. timestamp_of r = last_ts l \<longrightarrow>
               process_row E r l w = (Inr l, print (ProcessingRow r) w)"
    using process_row_skip by simp
  from a b c d show ?thesis unfolding P Let_def by blast
qed

text \<open>
  The theorem at the batch of \<^const>\<open>bench_entry\<close> and \<^const>\<open>twin_entry\<close>, which share a
  timestamp.
\<close>

theorem equal_timestamps_only_first_handled_witness:
  "map row_key (audit_rows_written world0 (snd (main (healthy_env [bench_entry, twin_entry]) world0)))
     = [entry_key bench_entry]"
proof -
  have fin: "fst (main_loop (healthy_env [bench_entry, twin_entry]) world0)
     = Inr \<lparr>last_ts = ''2024-05-01T18:00:00+00:00'', processed_any = True,
              parsed_json = Some (dumps_plain bench_obj)\<rparr>"
    by (simp add: twin_run_loop)
  from equal_timestamps_only_first_handled
         [OF healthy_fetch [of "[bench_entry, twin_entry]" "calls world0" 100]] fin
  show ?thesis unfolding Let_def twin_first by auto
qed



end
